theory Spec2Isabelle
  imports Main "HOL-Library.AList"
begin

text \<open>
  The resolution of memberships and permissions in the class \<open>User\<close>: \<open>getGroups\<close>
  with its inner \<open>handleRows\<close>, \<open>getPermissions\<close>, \<open>hasPermission\<close>,
  \<open>endGroupMembership\<close> and \<open>addToGroup\<close>. The object's fields \<open>groups\<close> and
  \<open>permissions\<close> and the tables of the database are passed in and returned; the clock
  readings (\<open>moment().unix()\<close>), the parser \<open>csvParse\<close> and the number of calls
  \<open>handleRows\<close> may make are parameters.
\<close>

section \<open>JavaScript values of the time fields\<close>

text \<open>
  The time fields of a row and of a resolved membership hold what JavaScript puts there:
  an integer read from the database (epoch seconds, far below \<open>2^53\<close>, so exact),
  \<open>null\<close> for a membership without expiry, \<open>undefined\<close> for the rows of the parent
  lookup (that query selects neither \<open>from\<close> nor \<open>to\<close>), and the numbers
  \<open>NaN\<close>, \<open>Infinity\<close>, \<open>-Infinity\<close> that \<open>Math.min\<close> and \<open>Math.max\<close> produce.
\<close>

datatype jsval = Undefined | Null | Num int | NaN | PosInf | NegInf

fun toNumber :: "jsval \<Rightarrow> jsval" where
  "toNumber Undefined = NaN"
| "toNumber Null = Num 0"
| "toNumber v = v"

text \<open>The order of the numbers other than \<open>NaN\<close>.\<close>

fun num_le :: "jsval \<Rightarrow> jsval \<Rightarrow> bool" where
  "num_le NegInf _ = True"
| "num_le _ PosInf = True"
| "num_le (Num a) (Num b) = (a \<le> b)"
| "num_le _ _ = False"

definition min2 :: "jsval \<Rightarrow> jsval \<Rightarrow> jsval" where
  "min2 a b = (let x = toNumber a; y = toNumber b in
     if x = NaN \<or> y = NaN then NaN else if num_le x y then x else y)"

definition max2 :: "jsval \<Rightarrow> jsval \<Rightarrow> jsval" where
  "max2 a b = (let x = toNumber a; y = toNumber b in
     if x = NaN \<or> y = NaN then NaN else if num_le x y then y else x)"

text \<open>\<open>Math.min(...xs)\<close> and \<open>Math.max(...xs)\<close>: \<open>Infinity\<close> and \<open>-Infinity\<close> on no argument.\<close>

definition Math_min :: "jsval list \<Rightarrow> jsval" where
  "Math_min xs = foldl min2 PosInf xs"

definition Math_max :: "jsval list \<Rightarrow> jsval" where
  "Math_max xs = foldl max2 NegInf xs"

text \<open>Truthiness, as \<open>if (v)\<close> and \<open>a && b\<close> test it.\<close>

fun truthy :: "jsval \<Rightarrow> bool" where
  "truthy Undefined = False"
| "truthy Null = False"
| "truthy NaN = False"
| "truthy (Num n) = (n \<noteq> 0)"
| "truthy _ = True"

text \<open>\<open>a < b\<close> and \<open>a > b\<close> on these values: false as soon as one side is \<open>NaN\<close>.\<close>

definition js_lt :: "jsval \<Rightarrow> jsval \<Rightarrow> bool" where
  "js_lt a b = (let x = toNumber a; y = toNumber b in
     x \<noteq> NaN \<and> y \<noteq> NaN \<and> x \<noteq> y \<and> num_le x y)"

definition js_gt :: "jsval \<Rightarrow> jsval \<Rightarrow> bool" where
  "js_gt a b = js_lt b a"

fun isFinite :: "jsval \<Rightarrow> bool" where
  "isFinite v = (case toNumber v of Num _ \<Rightarrow> True | _ \<Rightarrow> False)"

section \<open>Strings\<close>

text \<open>\<open>s.split(c)\<close> for a one-character separator: never empty, \<open>''.split('.')\<close> is \<open>['']\<close>.\<close>

fun split_at :: "char \<Rightarrow> string \<Rightarrow> string list" where
  "split_at sep [] = [[]]"
| "split_at sep (c # cs) =
     (if c = sep then [] # split_at sep cs
      else (case split_at sep cs of [] \<Rightarrow> [[c]] | w # ws \<Rightarrow> (c # w) # ws))"

definition split_dot :: "string \<Rightarrow> string list" where
  "split_dot s = split_at (CHR ''.'') s"

text \<open>The decimal digits of \<open>i + 1\<close> in the key \<open>'$' + (i + 1)\<close>.\<close>

fun decimal :: "nat \<Rightarrow> string" where
  "decimal n = (if n < 10 then [''0123456789'' ! n]
                else decimal (n div 10) @ [''0123456789'' ! (n mod 10)])"

text \<open>
  \<open>s.replace(key, repl)\<close> with a string pattern replaces the first occurrence only, and
  the replacement text is read for the patterns \<open>$$\<close>, \<open>$&\<close>, \<open>$`\<close> and \<open>$'\<close>
  (there are no captures, so \<open>$1\<close> stays as it is).
\<close>

fun find_first :: "string \<Rightarrow> string \<Rightarrow> (string \<times> string) option" where
  "find_first key [] = (if key = [] then Some ([], []) else None)"
| "find_first key (c # cs) =
     (if take (length key) (c # cs) = key then Some ([], drop (length key) (c # cs))
      else map_option (\<lambda>(b, a). (c # b, a)) (find_first key cs))"

fun getSubstitution :: "string \<Rightarrow> string \<Rightarrow> string \<Rightarrow> string \<Rightarrow> string" where
  "getSubstitution m b a (c # d # r) =
     (if c = CHR ''$'' then
        (if d = CHR ''$'' then CHR ''$'' # getSubstitution m b a r
         else if d = CHR ''&'' then m @ getSubstitution m b a r
         else if d = CHR 0x60 then b @ getSubstitution m b a r
         else if d = CHR 0x27 then a @ getSubstitution m b a r
         else c # getSubstitution m b a (d # r))
      else c # getSubstitution m b a (d # r))"
| "getSubstitution m b a r = r"

definition replace :: "string \<Rightarrow> string \<Rightarrow> string \<Rightarrow> string" where
  "replace s key repl =
     (case find_first key s of
        None \<Rightarrow> s
      | Some (b, a) \<Rightarrow> b @ getSubstitution key b a repl @ a)"

section \<open>Errors and outcomes\<close>

text \<open>
  \<open>TypeError\<close> is the exception of the language (a property read on \<open>null\<close> or
  \<open>undefined\<close>, \<open>in\<close> applied to a boolean); \<open>ParseError\<close> is the rejection of
  \<open>csvParse\<close>. \<open>EnteredBuiltin\<close> is no exception: it marks a run that steps out of the
  permission tree into an object every object inherits from \<open>Object.prototype\<close>
  (\<open>path['constructor']\<close> is the function \<open>Object\<close>); what happens there belongs to
  the engine and is outside this development, and nothing is stated about such runs.

  An asynchronous method either resolves with a value, rejects with an error, or never
  settles; the state it leaves behind is part of the first two.
\<close>

datatype error = TypeError | ParseError | EnteredBuiltin

datatype ('a, 's) outcome = Returned 'a 's | Threw error 's | NoReturn

section \<open>The permission tree\<close>

text \<open>
  \<open>this.permissions\<close> is a plain object whose values are \<open>true\<close> or nested plain
  objects. \<open>bit in path\<close> also finds the properties inherited from
  \<open>Object.prototype\<close>.
\<close>

datatype perm = PTrue | PObj "(string \<times> perm) list"

definition objectPrototypeKeys :: "string list" where
  "objectPrototypeKeys =
     [''constructor'', ''hasOwnProperty'', ''isPrototypeOf'', ''propertyIsEnumerable'',
      ''toLocaleString'', ''toString'', ''valueOf'', ''__proto__'',
      ''__defineGetter__'', ''__defineSetter__'', ''__lookupGetter__'', ''__lookupSetter__'']"

definition inherited :: "string \<Rightarrow> bool" where
  "inherited b = (b \<in> set objectPrototypeKeys)"

definition js_in :: "string \<Rightarrow> (string \<times> perm) list \<Rightarrow> bool" where
  "js_in b path = (map_of path b \<noteq> None \<or> inherited b)"

text \<open>
  One permission of the loop "Structurize the permissions": the bits but the last descend,
  creating \<open>{}\<close> where the bit is absent; the last one stores \<open>true\<close>. The object is
  changed in place, so the result carries the object as it stands when the walk ends or
  throws. Descending into \<open>true\<close> throws at the next \<open>in\<close> or, the module being in
  strict mode, at the next assignment. Assigning \<open>true\<close> to \<open>__proto__\<close> changes
  nothing.
\<close>

fun insert_bits :: "string list \<Rightarrow> (string \<times> perm) list \<Rightarrow> (string \<times> perm) list \<times> error option" where
  "insert_bits [] path = (path, None)"
| "insert_bits [b] path =
     (if b = ''__proto__'' then (path, None) else (AList.update b PTrue path, None))"
| "insert_bits (b # bits) path =
     (case map_of path b of
        None \<Rightarrow>
          if inherited b then (path, Some EnteredBuiltin)
          else (case insert_bits bits [] of
                  (sub, e) \<Rightarrow> (AList.update b (PObj sub) path, e))
      | Some PTrue \<Rightarrow> (path, Some TypeError)
      | Some (PObj sub) \<Rightarrow>
          (case insert_bits bits sub of
             (sub', e) \<Rightarrow> (AList.update b (PObj sub') path, e)))"

text \<open>The loop over \<open>rawPermissions\<close>; an exception ends it.\<close>

fun structurize :: "string list \<Rightarrow> (string \<times> perm) list \<Rightarrow> (string \<times> perm) list \<times> error option" where
  "structurize [] path = (path, None)"
| "structurize (permission # rest) path =
     (case insert_bits (split_dot permission) path of
        (path', Some e) \<Rightarrow> (path', Some e)
      | (path', None) \<Rightarrow> structurize rest path')"

text \<open>
  The loop of \<open>hasPermission\<close> over the bits of the asked permission, \<open>path\<close> being the
  value reached so far.
\<close>

fun walk :: "perm \<Rightarrow> string list \<Rightarrow> error + bool" where
  "walk path [] = Inr True"
| "walk PTrue (b # bits) = Inl TypeError"
| "walk (PObj kvs) (b # bits) =
     (case map_of kvs b of
        Some sub \<Rightarrow> walk sub bits
      | None \<Rightarrow>
          if inherited b then (if bits = [] then Inr True else Inl EnteredBuiltin)
          else Inr (js_in ''*'' kvs))"

section \<open>The database\<close>

text \<open>
  The tables the queries of the \<open>User\<close> class read and write, each a list of its rows in
  storage order. Flags are stored as integers and read with \<open>!!\<close>.
\<close>

record groups_row =
  gr_id :: int
  gr_name_base :: string
  gr_name_display :: "string option"
  gr_parent :: "int option"
  gr_public :: int
  gr_searchable :: int
  gr_members_allowed :: int
  gr_args :: "string option"

record users_groups_row =
  ug_user_id :: int
  ug_group_id :: int
  ug_from :: int
  ug_to :: "int option"
  ug_args :: "string option"

record database =
  users_groups :: "users_groups_row list"
  groups_tbl :: "groups_row list"
  groups_permissions :: "(int \<times> string) list"
  users_permissions :: "(int \<times> string) list"

text \<open>
  A row as \<open>handleRows\<close> receives it. The rows of the first query carry \<open>from\<close>,
  \<open>to\<close> and \<open>user_args\<close> and have no property \<open>direct\<close>; the rows of the parent
  lookup carry none of the three and get \<open>direct = false\<close>.
\<close>

record row =
  row_id :: int
  row_from :: jsval
  row_to :: jsval
  name_base :: string
  name_display :: "string option"
  members_allowed :: int
  parent :: "int option"
  public_flag :: int
  searchable :: int
  group_args :: "string option"
  user_args :: "string option"
  row_direct :: "bool option"

text \<open>
  \<open>select ... from users_groups inner join groups on users_groups.group_id = groups.id
  where user_id = ?\<close>
\<close>

definition direct_rows :: "database \<Rightarrow> int \<Rightarrow> row list" where
  "direct_rows db uid =
     concat (map (\<lambda>ug. map (\<lambda>g.
         \<lparr> row_id = gr_id g,
           row_from = Num (ug_from ug),
           row_to = (case ug_to ug of None \<Rightarrow> Null | Some t \<Rightarrow> Num t),
           name_base = gr_name_base g,
           name_display = gr_name_display g,
           members_allowed = gr_members_allowed g,
           parent = gr_parent g,
           public_flag = gr_public g,
           searchable = gr_searchable g,
           group_args = gr_args g,
           user_args = ug_args ug,
           row_direct = None \<rparr>)
         (filter (\<lambda>g. gr_id g = ug_group_id ug) (groups_tbl db)))
       (filter (\<lambda>ug. ug_user_id ug = uid) (users_groups db)))"

text \<open>
  \<open>select ... from groups where id in (...nextLookup)\<close>, followed by the loop that sets
  \<open>row.direct = false\<close>.
\<close>

definition parent_rows :: "database \<Rightarrow> int list \<Rightarrow> row list" where
  "parent_rows db nextLookup =
     map (\<lambda>g.
         \<lparr> row_id = gr_id g,
           row_from = Undefined,
           row_to = Undefined,
           name_base = gr_name_base g,
           name_display = gr_name_display g,
           members_allowed = gr_members_allowed g,
           parent = gr_parent g,
           public_flag = gr_public g,
           searchable = gr_searchable g,
           group_args = gr_args g,
           user_args = None,
           row_direct = Some False \<rparr>)
       (filter (\<lambda>g. gr_id g \<in> set nextLookup) (groups_tbl db))"

section \<open>Resolved memberships\<close>

record Group =
  id_g :: int
  nameBase :: string
  nameDisplay :: "string option"
  membersAllowed :: bool
  parent_g :: "int option"
  isPublic :: bool
  searchable_g :: bool
  args_g :: "string list"

record membership =
  args :: "string list"
  from_u :: jsval
  to_u :: jsval
  active :: bool
  direct :: bool
  children :: "int list option"
  name :: string

record resolved =
  group :: Group
  user :: membership

text \<open>
  \<open>this.groups\<close> is a \<open>Map\<close>: \<open>set\<close> replaces the value of a key that is present,
  in place, and appends a new key. \<open>pairings\<close> is an object from a parent's id to the
  array of the ids of the rows that named it.
\<close>

type_synonym groups_map = "(int \<times> resolved) list"
type_synonym pairings = "(int \<times> int list) list"

text \<open>
  \<open>csvParse\<close> comes from the library csv-parse: it resolves with the list of the
  records of the text, or rejects.
\<close>

type_synonym csvParse = "string \<Rightarrow> string list list option"

text \<open>"If already present": the window of the row merged with the stored one.\<close>

definition already_present :: "row \<Rightarrow> groups_map \<Rightarrow> jsval \<times> jsval" where
  "already_present r groups =
     (case map_of groups (row_id r) of
        None \<Rightarrow> (row_from r, row_to r)
      | Some g \<Rightarrow>
          (Math_min [row_from r, from_u (user g)],
           if truthy (row_to r) \<and> truthy (to_u (user g)) then Math_max [row_to r, to_u (user g)]
           else if truthy (to_u (user g)) then to_u (user g)
           else row_to r))"

text \<open>
  "If parent": the window computed from the children recorded in \<open>pairings[row.id]\<close>.
  Reading \<open>.map\<close> of a missing array, or \<open>.user\<close> of a missing child, throws.
\<close>

definition from_children :: "row \<Rightarrow> groups_map \<Rightarrow> pairings \<Rightarrow> error + jsval \<times> jsval" where
  "from_children r groups prs =
     (case map_of prs (row_id r) of
        None \<Rightarrow> Inl TypeError
      | Some ids \<Rightarrow>
          (case those (map (map_of groups) ids) of
             None \<Rightarrow> Inl TypeError
           | Some cs \<Rightarrow>
               (let timeFrom = Math_min (map (\<lambda>x. from_u (user x)) cs);
                    timeTo = Math_max (map (\<lambda>x. if \<not> truthy (to_u (user x)) then PosInf
                                                 else to_u (user x)) cs)
                in Inr (timeFrom, if \<not> isFinite timeTo then Null else timeTo))))"

text \<open>
  \<open>row.user_args || ''\<close>, then the first record of the parsed text, or the empty list
  of records itself.
\<close>

definition or_empty :: "string option \<Rightarrow> string" where
  "or_empty s = (case s of None \<Rightarrow> [] | Some t \<Rightarrow> t)"

definition first_record :: "csvParse \<Rightarrow> string option \<Rightarrow> error + string list" where
  "first_record csv s =
     (case csv (or_empty s) of
        None \<Rightarrow> Inl ParseError
      | Some [] \<Rightarrow> Inr []
      | Some (rec # _) \<Rightarrow> Inr rec)"

text \<open>The loop replacing \<open>$1\<close>, \<open>$2\<close>, ... by the arguments, \<open>i\<close> counting from 0.\<close>

fun substitute :: "string \<Rightarrow> string list \<Rightarrow> nat \<Rightarrow> string" where
  "substitute nameForUser [] i = nameForUser"
| "substitute nameForUser (a # as) i =
     substitute (replace nameForUser (CHR ''$'' # decimal (i + 1)) a) as (Suc i)"

definition render_name :: "string \<Rightarrow> string option \<Rightarrow> string list \<Rightarrow> string" where
  "render_name base display as =
     (case display of
        None \<Rightarrow> base
      | Some d \<Rightarrow> if d = [] then base else substitute d as 0)"

definition is_active :: "jsval \<Rightarrow> jsval \<Rightarrow> int \<Rightarrow> bool" where
  "is_active timeFrom timeTo timeNow =
     (\<not> js_gt timeFrom (Num timeNow) \<and> \<not> (truthy timeTo \<and> js_lt timeTo (Num timeNow)))"

text \<open>
  The body of the loop of \<open>handleRows\<close> up to \<open>this.groups.set\<close>: the entry stored for
  the row, or the exception thrown before anything is stored. For a row with
  \<open>direct === false\<close> the branch "If parent" assigns both \<open>timeFrom\<close> and
  \<open>timeTo\<close> anew, so what "If already present" computed for it is dropped; that branch
  throws nothing and changes nothing else.
\<close>

definition resolve_row :: "csvParse \<Rightarrow> int \<Rightarrow> row \<Rightarrow> groups_map \<Rightarrow> pairings \<Rightarrow> error + resolved" where
  "resolve_row csv timeNow r groups prs =
     (let is_direct = (row_direct r \<noteq> Some False) in
      case (if is_direct then Inr (already_present r groups) else from_children r groups prs) of
        Inl e \<Rightarrow> Inl e
      | Inr (timeFrom, timeTo) \<Rightarrow>
          (case first_record csv (user_args r) of
             Inl e \<Rightarrow> Inl e
           | Inr userArgsArr \<Rightarrow>
               (case first_record csv (group_args r) of
                  Inl e \<Rightarrow> Inl e
                | Inr groupArgsArr \<Rightarrow>
                    Inr \<lparr> group =
                            \<lparr> id_g = row_id r,
                              nameBase = name_base r,
                              nameDisplay = name_display r,
                              membersAllowed = (members_allowed r \<noteq> 0),
                              parent_g = parent r,
                              isPublic = (public_flag r \<noteq> 0),
                              searchable_g = (searchable r \<noteq> 0),
                              args_g = groupArgsArr \<rparr>,
                          user =
                            \<lparr> args = userArgsArr,
                              from_u = timeFrom,
                              to_u = timeTo,
                              active = is_active timeFrom timeTo timeNow,
                              direct = is_direct,
                              children = map_of prs (row_id r),
                              name = render_name (name_base r) (name_display r) userArgsArr \<rparr> \<rparr>)))"

text \<open>
  \<open>pairings[row.parent].push(row.id)\<close>. An entry stored with \<open>children: pairings[id]\<close>
  holds that very array, so the push shows in the entry of the parent too.
\<close>

definition push_pairing :: "int \<Rightarrow> int \<Rightarrow> groups_map \<times> pairings \<Rightarrow> groups_map \<times> pairings" where
  "push_pairing p i st =
     (case st of (groups, prs) \<Rightarrow>
        (AList.map_entry p
           (\<lambda>e. e\<lparr>user := (user e)\<lparr>children := map_option (\<lambda>l. l @ [i]) (children (user e))\<rparr>\<rparr>)
           groups,
         AList.update p ((case map_of prs p of None \<Rightarrow> [] | Some l \<Rightarrow> l) @ [i]) prs))"

text \<open>
  The \<open>for\<close> loop of \<open>handleRows\<close>: the state it reaches, the \<open>nextLookup\<close> it has
  collected, and the exception that ended it, if one did. \<open>if (row.parent)\<close> is false for
  \<open>null\<close> and for the id 0.
\<close>

fun for_rows :: "csvParse \<Rightarrow> int \<Rightarrow> row list \<Rightarrow> groups_map \<times> pairings \<Rightarrow> int list
    \<Rightarrow> (groups_map \<times> pairings) \<times> int list \<times> error option" where
  "for_rows csv timeNow [] st nextLookup = (st, nextLookup, None)"
| "for_rows csv timeNow (r # rows) st nextLookup =
     (case resolve_row csv timeNow r (fst st) (snd st) of
        Inl e \<Rightarrow> (st, nextLookup, Some e)
      | Inr entry \<Rightarrow>
          (let st' = (AList.update (row_id r) entry (fst st), snd st) in
           case parent r of
             None \<Rightarrow> for_rows csv timeNow rows st' nextLookup
           | Some p \<Rightarrow>
               if p = 0 then for_rows csv timeNow rows st' nextLookup
               else for_rows csv timeNow rows (push_pairing p (row_id r) st') (nextLookup @ [p])))"

text \<open>
  \<open>handleRows\<close> calls itself on the rows of the parents for as long as a row names a
  parent. The first argument bounds the number of calls; \<open>NoReturn\<close> is the answer when
  the bound is reached.
\<close>

fun handleRows :: "nat \<Rightarrow> csvParse \<Rightarrow> int \<Rightarrow> database \<Rightarrow> row list \<Rightarrow> groups_map \<times> pairings
    \<Rightarrow> (unit, groups_map \<times> pairings) outcome" where
  "handleRows 0 csv timeNow db rows st = NoReturn"
| "handleRows (Suc fuel) csv timeNow db rows st =
     (case for_rows csv timeNow rows st [] of
        (st', nextLookup, Some e) \<Rightarrow> Threw e st'
      | (st', nextLookup, None) \<Rightarrow>
          if length nextLookup < 1 then Returned () st'
          else handleRows fuel csv timeNow db (parent_rows db nextLookup) st')"

section \<open>The user\<close>

record User =
  id_u :: int
  groups :: "groups_map option"
  permissions :: "(string \<times> perm) list option"

text \<open>
  \<open>getGroups\<close>: the cached map when there is one; otherwise an empty map is assigned to
  \<open>this.groups\<close> and filled by \<open>handleRows\<close>, so whatever was stored when an
  exception is thrown stays in \<open>this.groups\<close>.
\<close>

definition getGroups :: "nat \<Rightarrow> csvParse \<Rightarrow> int \<Rightarrow> database \<Rightarrow> User \<Rightarrow> (groups_map, User) outcome" where
  "getGroups fuel csv timeNow db u =
     (case groups u of
        Some g \<Rightarrow> Returned g u
      | None \<Rightarrow>
          (case handleRows fuel csv timeNow db (direct_rows db (id_u u)) ([], []) of
             Returned _ st \<Rightarrow> Returned (fst st) (u\<lparr>groups := Some (fst st)\<rparr>)
           | Threw e st \<Rightarrow> Threw e (u\<lparr>groups := Some (fst st)\<rparr>)
           | NoReturn \<Rightarrow> NoReturn))"

text \<open>
  \<open>getPermissions\<close>: the cached tree when there is one; otherwise \<open>{}\<close> is assigned to
  \<open>this.permissions\<close> first, then the groups are resolved, the permissions of the active
  groups and of the user are read, and the tree is filled in place.
\<close>

definition rawPermissions :: "database \<Rightarrow> int \<Rightarrow> groups_map \<Rightarrow> string list" where
  "rawPermissions db uid gs =
     (let groupIds = map (\<lambda>g. id_g (group g)) (filter (\<lambda>g. active (user g)) (map snd gs))
      in map snd (filter (\<lambda>gp. fst gp \<in> set groupIds) (groups_permissions db))
         @ map snd (filter (\<lambda>up. fst up = uid) (users_permissions db)))"

definition getPermissions :: "nat \<Rightarrow> csvParse \<Rightarrow> int \<Rightarrow> database \<Rightarrow> User
    \<Rightarrow> ((string \<times> perm) list, User) outcome" where
  "getPermissions fuel csv timeNow db u =
     (case permissions u of
        Some p \<Rightarrow> Returned p u
      | None \<Rightarrow>
          (case getGroups fuel csv timeNow db (u\<lparr>permissions := Some []\<rparr>) of
             NoReturn \<Rightarrow> NoReturn
           | Threw e u' \<Rightarrow> Threw e u'
           | Returned gs u' \<Rightarrow>
               (case structurize (rawPermissions db (id_u u) gs) [] of
                  (tree, Some e) \<Rightarrow> Threw e (u'\<lparr>permissions := Some tree\<rparr>)
                | (tree, None) \<Rightarrow> Returned tree (u'\<lparr>permissions := Some tree\<rparr>))))"

definition hasPermission :: "nat \<Rightarrow> csvParse \<Rightarrow> int \<Rightarrow> database \<Rightarrow> User \<Rightarrow> string
    \<Rightarrow> (bool, User) outcome" where
  "hasPermission fuel csv timeNow db u permission =
     (case getPermissions fuel csv timeNow db u of
        NoReturn \<Rightarrow> NoReturn
      | Threw e u' \<Rightarrow> Threw e u'
      | Returned tree u' \<Rightarrow>
          (case walk (PObj tree) (split_dot permission) of
             Inl e \<Rightarrow> Threw e u'
           | Inr ok \<Rightarrow> Returned ok u'))"

section \<open>Leaving and joining a group\<close>

text \<open>Both methods take "the group or its id".\<close>

datatype group_ref = ById int | ByGroup Group

text \<open>
  Modelled from the spec: \<open>Group.getGroupById\<close> belongs to the module \<open>./group\<close>,
  which is not among the sources. It gives the Group stored under the id, with the fields
  section 3 of the specification lists and the argument labels decoded as section 4.3 says
  (the first record, the empty list when the text is malformed), and \<open>null\<close> when no
  group has the id.
\<close>

definition getGroupById :: "csvParse \<Rightarrow> database \<Rightarrow> int \<Rightarrow> Group option" where
  "getGroupById csv db i =
     (case filter (\<lambda>g. gr_id g = i) (groups_tbl db) of
        [] \<Rightarrow> None
      | g # _ \<Rightarrow>
          Some \<lparr> id_g = gr_id g,
                 nameBase = gr_name_base g,
                 nameDisplay = gr_name_display g,
                 membersAllowed = (gr_members_allowed g \<noteq> 0),
                 parent_g = gr_parent g,
                 isPublic = (gr_public g \<noteq> 0),
                 searchable_g = (gr_searchable g \<noteq> 0),
                 args_g = (case first_record csv (gr_args g) of Inl _ \<Rightarrow> [] | Inr as \<Rightarrow> as) \<rparr>)"

definition resolve_ref :: "csvParse \<Rightarrow> database \<Rightarrow> group_ref \<Rightarrow> Group option" where
  "resolve_ref csv db ref = (case ref of ByGroup g \<Rightarrow> Some g | ById i \<Rightarrow> getGroupById csv db i)"

text \<open>
  Modelled from the spec: \<open>Group.addUser\<close> belongs to the same missing module. Joining
  is refused when the group does not permit direct members; otherwise the membership is
  stored (\<open>insertMembership(userId, groupId, args, timeFrom, timeTo)\<close> of section 6),
  its arguments in the delimited-text encoding, which is a parameter here.
\<close>

definition addUser :: "(string list \<Rightarrow> string) \<Rightarrow> Group \<Rightarrow> int \<Rightarrow> string list \<Rightarrow> int \<Rightarrow> int option
    \<Rightarrow> database \<Rightarrow> bool \<times> database" where
  "addUser encode g uid as timeFrom timeTo db =
     (if membersAllowed g then
        (True, db\<lparr>users_groups := users_groups db @
           [\<lparr> ug_user_id = uid, ug_group_id = id_g g, ug_from = timeFrom,
              ug_to = timeTo, ug_args = Some (encode as) \<rparr>]\<rparr>)
      else (False, db))"

text \<open>\<open>update users_groups set `to` = ? where user_id = ? and group_id = ?\<close>\<close>

definition end_rows :: "int \<Rightarrow> int \<Rightarrow> int \<Rightarrow> users_groups_row list \<Rightarrow> users_groups_row list" where
  "end_rows timeNow uid gid rows =
     map (\<lambda>r. if ug_user_id r = uid \<and> ug_group_id r = gid then r\<lparr>ug_to := Some timeNow\<rparr> else r) rows"

text \<open>
  \<open>endGroupMembership\<close>. The clock is read by the first \<open>getGroups\<close> (when nothing is
  cached), by the method itself and by the second \<open>getGroups\<close>: \<open>t0\<close>, \<open>timeNow\<close>
  and \<open>t1\<close>. A \<open>null\<close> group throws at \<open>group.id\<close>, after the first
  \<open>getGroups\<close>.
\<close>

definition endGroupMembership :: "nat \<Rightarrow> csvParse \<Rightarrow> int \<Rightarrow> int \<Rightarrow> int \<Rightarrow> database \<Rightarrow> User
    \<Rightarrow> group_ref \<Rightarrow> (bool, User \<times> database) outcome" where
  "endGroupMembership fuel csv t0 timeNow t1 db u ref =
     (case getGroups fuel csv t0 db u of
        NoReturn \<Rightarrow> NoReturn
      | Threw e u1 \<Rightarrow> Threw e (u1, db)
      | Returned gs u1 \<Rightarrow>
          (case resolve_ref csv db ref of
             None \<Rightarrow> Threw TypeError (u1, db)
           | Some g \<Rightarrow>
               if map_of gs (id_g g) = None then Returned False (u1, db)
               else
                 (let db' = db\<lparr>users_groups := end_rows timeNow (id_u u) (id_g g) (users_groups db)\<rparr>
                  in case getGroups fuel csv t1 db' (u1\<lparr>groups := None\<rparr>) of
                       NoReturn \<Rightarrow> NoReturn
                     | Threw e u2 \<Rightarrow> Threw e (u2, db')
                     | Returned _ u2 \<Rightarrow> Returned True (u2, db'))))"

text \<open>
  \<open>addToGroup\<close>. \<open>as\<close> is \<open>None\<close> for \<open>null\<close>, \<open>timeFrom\<close> is \<open>None\<close> when
  the argument is left out; the clock is read for that default (\<open>t0\<close>), for
  \<open>timeNow\<close>, and by \<open>getGroups\<close> (\<open>t1\<close>). The result is the group, or \<open>None\<close>
  for \<open>false\<close>. The entry is set in the map \<open>getGroups\<close> returned, which is
  \<open>this.groups\<close> itself.
\<close>

definition addToGroup :: "nat \<Rightarrow> csvParse \<Rightarrow> (string list \<Rightarrow> string) \<Rightarrow> int \<Rightarrow> int \<Rightarrow> int
    \<Rightarrow> database \<Rightarrow> User \<Rightarrow> group_ref \<Rightarrow> string list option \<Rightarrow> int option \<Rightarrow> int option
    \<Rightarrow> (Group option, User \<times> database) outcome" where
  "addToGroup fuel csv encode t0 timeNow t1 db u ref as timeFrom timeTo =
     (let timeFrom' = (case timeFrom of None \<Rightarrow> t0 | Some t \<Rightarrow> t);
          timeTo' = (case timeTo of None \<Rightarrow> Null | Some t \<Rightarrow> Num t)
      in case resolve_ref csv db ref of
           None \<Rightarrow> Threw TypeError (u, db)
         | Some g \<Rightarrow>
             (let as' = (case as of None \<Rightarrow> [] | Some l \<Rightarrow> l)
              in case addUser encode g (id_u u) as' timeFrom' timeTo db of
                   (False, _) \<Rightarrow> Returned None (u, db)
                 | (True, db') \<Rightarrow>
                     (case getGroups fuel csv t1 db' u of
                        NoReturn \<Rightarrow> NoReturn
                      | Threw e u1 \<Rightarrow> Threw e (u1, db')
                      | Returned gs u1 \<Rightarrow>
                          Returned (Some g)
                            (u1\<lparr>groups := Some (AList.update (id_g g)
                                 \<lparr> group = g,
                                   user =
                                     \<lparr> args = as',
                                       from_u = Num timeFrom',
                                       to_u = timeTo',
                                       active = (\<not> (truthy timeTo' \<and> js_lt timeTo' (Num timeNow))
                                                 \<and> \<not> js_gt (Num timeFrom') (Num timeNow)),
                                       direct = True,
                                       children = None,
                                       name = render_name (nameBase g) (nameDisplay g) as' \<rparr> \<rparr>
                                 gs)\<rparr>,
                             db'))))"

section \<open>Notions used in the statements\<close>

text \<open>The membership part of the entry a call of \<open>getGroups\<close> returns for a group.\<close>

definition result_entry :: "(groups_map, User) outcome \<Rightarrow> int \<Rightarrow> membership option" where
  "result_entry out i =
     (case out of Returned gs _ \<Rightarrow> map_option user (map_of gs i) | _ \<Rightarrow> None)"

text \<open>The value a call returns, and the state it leaves when it returns.\<close>

definition returned :: "('a, 's) outcome \<Rightarrow> 'a option" where
  "returned out = (case out of Returned v _ \<Rightarrow> Some v | _ \<Rightarrow> None)"

definition state_after :: "('a, 's) outcome \<Rightarrow> 's option" where
  "state_after out = (case out of Returned _ s \<Rightarrow> Some s | _ \<Rightarrow> None)"

text \<open>
  The parent chain of every stored group with id \<open>i\<close> ends after at most \<open>n\<close> steps:
  at a group without parent (\<open>null\<close> or 0), or at an id no group is stored under.
\<close>

fun chain_ends :: "database \<Rightarrow> nat \<Rightarrow> int \<Rightarrow> bool" where
  "chain_ends db 0 i =
     (\<forall>g\<in>set (groups_tbl db). gr_id g = i \<longrightarrow>
        (case gr_parent g of None \<Rightarrow> True | Some p \<Rightarrow> p = 0))"
| "chain_ends db (Suc n) i =
     (\<forall>g\<in>set (groups_tbl db). gr_id g = i \<longrightarrow>
        (case gr_parent g of None \<Rightarrow> True | Some p \<Rightarrow> p = 0 \<or> chain_ends db n p))"

text \<open>The same for the parent a row names: it ends within \<open>n\<close> lookups.\<close>

definition row_ends :: "database \<Rightarrow> nat \<Rightarrow> row \<Rightarrow> bool" where
  "row_ends db n r =
     (case parent r of
        None \<Rightarrow> True
      | Some p \<Rightarrow> p = 0 \<or> (case n of 0 \<Rightarrow> False | Suc m \<Rightarrow> chain_ends db m p))"

text \<open>
  The flag \<open>active\<close> is the only field that depends on the time of the resolution, and
  nothing reads it while the groups are resolved. To compare resolutions at different
  times the flag is cleared.
\<close>

definition inactive :: "resolved \<Rightarrow> resolved" where
  "inactive e = e\<lparr>user := (user e)\<lparr>active := False\<rparr>\<rparr>"

definition forget_active :: "groups_map \<Rightarrow> groups_map" where
  "forget_active gs = map (\<lambda>ke. (fst ke, inactive (snd ke))) gs"

definition forget_rows :: "(groups_map \<times> pairings) \<times> int list \<times> error option
    \<Rightarrow> (groups_map \<times> pairings) \<times> int list \<times> error option" where
  "forget_rows res = (case res of ((gs, prs), nl, err) \<Rightarrow> ((forget_active gs, prs), nl, err))"

definition forget_outcome :: "(unit, groups_map \<times> pairings) outcome \<Rightarrow> (unit, groups_map \<times> pairings) outcome" where
  "forget_outcome out =
     (case out of
        Returned v st \<Rightarrow> Returned v (forget_active (fst st), snd st)
      | Threw e st \<Rightarrow> Threw e (forget_active (fst st), snd st)
      | NoReturn \<Rightarrow> NoReturn)"

text \<open>A stored expiry as the value JavaScript reads.\<close>

definition expiry :: "int option \<Rightarrow> jsval" where
  "expiry t = (case t of None \<Rightarrow> Null | Some b \<Rightarrow> Num b)"

section \<open>Example data\<close>

text \<open>
  An instance of the parameter \<open>csvParse\<close> for the examples. On a text without quotes
  and line breaks csv-parse gives one record, the text split at its commas, and no record
  at all on the empty text; it rejects a text whose quoted field is never closed.
  \<open>csv_plain\<close> rejects every text that holds a quote, so it stands for csv-parse on
  the texts of the examples only: texts without quotes, and the unclosed \<open>"abc\<close>.
\<close>

definition csv_plain :: csvParse where
  "csv_plain s =
     (if s = [] then Some []
      else if CHR 0x22 \<in> set s then None
      else Some [split_at (CHR '','') s])"

text \<open>
  An instance of the encoding of the arguments for the examples: the arguments joined by
  commas, which is what csv-stringify writes for arguments without quotes, commas and line
  breaks, up to the end of the record.
\<close>

fun encode_plain :: "string list \<Rightarrow> string" where
  "encode_plain [] = []"
| "encode_plain [a] = a"
| "encode_plain (a # as) = a @ '','' @ encode_plain as"

definition plain_group :: "int \<Rightarrow> string \<Rightarrow> int option \<Rightarrow> groups_row" where
  "plain_group i nm par =
     \<lparr> gr_id = i, gr_name_base = nm, gr_name_display = None, gr_parent = par,
       gr_public = 1, gr_searchable = 1, gr_members_allowed = 1, gr_args = None \<rparr>"

definition member_row :: "int \<Rightarrow> int \<Rightarrow> int \<Rightarrow> int option \<Rightarrow> users_groups_row" where
  "member_row uid gid f t =
     \<lparr> ug_user_id = uid, ug_group_id = gid, ug_from = f, ug_to = t, ug_args = None \<rparr>"

definition fresh_user :: "int \<Rightarrow> User" where
  "fresh_user uid = \<lparr> id_u = uid, groups = None, permissions = None \<rparr>"

text \<open>User 1 is a member of group 10, which grants one permission.\<close>

definition db_one_grant :: "string \<Rightarrow> database" where
  "db_one_grant p =
     \<lparr> users_groups = [member_row 1 10 100 None],
       groups_tbl = [plain_group 10 ''Reporters'' None],
       groups_permissions = [(10, p)],
       users_permissions = [] \<rparr>"

definition reporters_entry :: resolved where
  "reporters_entry =
     \<lparr> group = \<lparr> id_g = 10, nameBase = ''Reporters'', nameDisplay = None, membersAllowed = True,
                 parent_g = None, isPublic = True, searchable_g = True, args_g = [] \<rparr>,
       user = \<lparr> args = [], from_u = Num 100, to_u = Null, active = True, direct = True,
                children = None, name = ''Reporters'' \<rparr> \<rparr>"

definition db_own_grant :: "string \<Rightarrow> database" where
  "db_own_grant p =
     \<lparr> users_groups = [], groups_tbl = [], groups_permissions = [], users_permissions = [(1, p)] \<rparr>"

definition db_empty :: database where
  "db_empty = \<lparr> users_groups = [], groups_tbl = [], groups_permissions = [], users_permissions = [] \<rparr>"

text \<open>
  User 1 holds the window (10, 20) in A and (5, null) in C, both children of B.
\<close>

definition db_children :: database where
  "db_children =
     \<lparr> users_groups = [member_row 1 1 10 (Some 20), member_row 1 3 5 None],
       groups_tbl = [plain_group 1 ''A'' (Some 2), plain_group 2 ''B'' None, plain_group 3 ''C'' (Some 2)],
       groups_permissions = [], users_permissions = [] \<rparr>"

text \<open>
  User 1 holds the window (10, 20) in A, a child of B, and (5, null) in B itself.
\<close>

definition db_direct_and_child :: database where
  "db_direct_and_child =
     \<lparr> users_groups = [member_row 1 1 10 (Some 20), member_row 1 2 5 None],
       groups_tbl = [plain_group 1 ''A'' (Some 2), plain_group 2 ''B'' None],
       groups_permissions = [], users_permissions = [] \<rparr>"

text \<open>
  User 1 left C at 20, the row being kept, and holds a second membership (5, null) in C.
\<close>

definition db_rejoined :: database where
  "db_rejoined =
     \<lparr> users_groups = [member_row 1 3 10 (Some 20), member_row 1 3 5 None],
       groups_tbl = [plain_group 3 ''C'' None],
       groups_permissions = [], users_permissions = [] \<rparr>"

text \<open>
  The end-to-end scenario: Board (id 5, no parent) from 1000 without expiry, Committee
  (id 7, parent Board) from 2000 to 3000.
\<close>

definition db_board :: database where
  "db_board =
     \<lparr> users_groups = [member_row 1 5 1000 None, member_row 1 7 2000 (Some 3000)],
       groups_tbl = [plain_group 5 ''Board'' None, plain_group 7 ''Committee'' (Some 5)],
       groups_permissions = [], users_permissions = [] \<rparr>"

text \<open>
  User 1 is a member of the groups 10 and 11; the arguments stored with the second
  membership are the text \<open>"abc\<close>, a quoted field that is never closed.
\<close>

definition db_bad_args :: database where
  "db_bad_args =
     \<lparr> users_groups = [member_row 1 10 100 None,
                       \<lparr> ug_user_id = 1, ug_group_id = 11, ug_from = 100, ug_to = None,
                         ug_args = Some (CHR 0x22 # ''abc'') \<rparr>],
       groups_tbl = [plain_group 10 ''Reporters'' None, plain_group 11 ''Editors'' None],
       groups_permissions = [], users_permissions = [] \<rparr>"

text \<open>A cycle in the parent pointers: A is the parent of B and B the parent of A.\<close>

definition db_cycle :: database where
  "db_cycle =
     \<lparr> users_groups = [member_row 1 1 10 None],
       groups_tbl = [plain_group 1 ''A'' (Some 2), plain_group 2 ''B'' (Some 1)],
       groups_permissions = [], users_permissions = [] \<rparr>"

text \<open>
  What the loop keeps true on \<open>db_cycle\<close> when the rows to handle are the parent row of
  \<open>y\<close>: the entry of the other group \<open>x\<close> has the window (10, null), and
  \<open>pairings[y]\<close> is a non-empty array of copies of \<open>x\<close>.
\<close>

definition cycle_inv :: "int \<Rightarrow> int \<Rightarrow> groups_map \<Rightarrow> pairings \<Rightarrow> bool" where
  "cycle_inv x y gs prs =
     ((\<exists>e. map_of gs x = Some e \<and> from_u (user e) = Num 10 \<and> to_u (user e) = Null)
      \<and> (\<exists>l. map_of prs y = Some l \<and> l \<noteq> [] \<and> set l \<subseteq> {x})
      \<and> (\<forall>l. map_of prs x = Some l \<longrightarrow> set l \<subseteq> {y}))"

text \<open>
  Editors (id 20), a child of Staff (id 21), grants the permission \<open>edit\<close>; nobody is a
  member yet.
\<close>

definition db_editors :: database where
  "db_editors =
     \<lparr> users_groups = [],
       groups_tbl = [plain_group 20 ''Editors'' (Some 21), plain_group 21 ''Staff'' None],
       groups_permissions = [(20, ''edit'')], users_permissions = [] \<rparr>"

definition editors :: Group where
  "editors = \<lparr> id_g = 20, nameBase = ''Editors'', nameDisplay = None, membersAllowed = True,
               parent_g = Some 21, isPublic = True, searchable_g = True, args_g = [] \<rparr>"

definition staff :: Group where
  "staff = \<lparr> id_g = 21, nameBase = ''Staff'', nameDisplay = None, membersAllowed = True,
             parent_g = None, isPublic = True, searchable_g = True, args_g = [] \<rparr>"

text \<open>User 1 before joining, with both caches filled by a call of \<open>hasPermission\<close>.\<close>

definition checked_user :: User where
  "checked_user = \<lparr> id_u = 1, groups = Some [], permissions = Some [] \<rparr>"

text \<open>The database once user 1 has joined Editors at 200.\<close>

definition db_joined :: database where
  "db_joined = db_editors\<lparr>users_groups :=
     [\<lparr> ug_user_id = 1, ug_group_id = 20, ug_from = 200, ug_to = None, ug_args = Some [] \<rparr>]\<rparr>"

text \<open>User 1 as a member, with both caches filled by a call of \<open>hasPermission\<close> at 300.\<close>

definition member_user :: User where
  "member_user =
     \<lparr> id_u = 1,
       groups = Some
         [(20, \<lparr> group = editors,
                 user = \<lparr> args = [], from_u = Num 200, to_u = Null, active = True, direct = True,
                          children = None, name = ''Editors'' \<rparr> \<rparr>),
          (21, \<lparr> group = staff,
                 user = \<lparr> args = [], from_u = Num 200, to_u = Null, active = True, direct = False,
                          children = Some [20], name = ''Staff'' \<rparr> \<rparr>)],
       permissions = Some [(''edit'', PTrue)] \<rparr>"

text \<open>
  User 1 is a member of A, whose parent is B, whose parent is C; the argument labels stored
  with C are the text \<open>"abc\<close>, a quoted field that is never closed.
\<close>

definition db_partial :: database where
  "db_partial =
     \<lparr> users_groups = [member_row 1 1 10 None],
       groups_tbl = [plain_group 1 ''A'' (Some 2), plain_group 2 ''B'' (Some 3),
                     (plain_group 3 ''C'' None)\<lparr>gr_args := Some (CHR 0x22 # ''abc'')\<rparr>],
       groups_permissions = [], users_permissions = [] \<rparr>"

text \<open>
  User 1 after a call of \<open>getGroups\<close> on \<open>db_partial\<close> that threw: the cache holds A and
  the inherited entry of B.
\<close>

definition partial_user :: User where
  "partial_user =
     \<lparr> id_u = 1,
       groups = Some
         [(1, \<lparr> group = \<lparr> id_g = 1, nameBase = ''A'', nameDisplay = None, membersAllowed = True,
                           parent_g = Some 2, isPublic = True, searchable_g = True, args_g = [] \<rparr>,
                user = \<lparr> args = [], from_u = Num 10, to_u = Null, active = True, direct = True,
                         children = None, name = ''A'' \<rparr> \<rparr>),
          (2, \<lparr> group = \<lparr> id_g = 2, nameBase = ''B'', nameDisplay = None, membersAllowed = True,
                           parent_g = Some 3, isPublic = True, searchable_g = True, args_g = [] \<rparr>,
                user = \<lparr> args = [], from_u = Num 10, to_u = Null, active = True, direct = False,
                         children = Some [1], name = ''B'' \<rparr> \<rparr>)],
       permissions = None \<rparr>"

section \<open>Theorems\<close>

lemmas example_defs = csv_plain_def plain_group_def member_row_def fresh_user_def db_one_grant_def

lemmas run_defs = getGroups_def getPermissions_def hasPermission_def rawPermissions_def
  direct_rows_def parent_rows_def resolve_row_def already_present_def from_children_def
  first_record_def or_empty_def render_name_def is_active_def push_pairing_def
  js_lt_def js_gt_def min2_def max2_def Math_min_def Math_max_def

lemmas tree_defs = split_dot_def inherited_def objectPrototypeKeys_def js_in_def

subsection \<open>A permission set with one element\<close>

lemma structurize_same:
  "insert_bits (split_dot p) t = (t, None) \<Longrightarrow> \<forall>x\<in>set ps. x = p \<Longrightarrow> structurize ps t = (t, None)"
  by (induction ps) auto

lemma structurize_single:
  assumes "set raw = {p}" and "insert_bits (split_dot p) [] = (t, None)"
      and "insert_bits (split_dot p) t = (t, None)"
  shows "structurize raw [] = (t, None)"
proof (cases raw)
  case Nil
  with assms show ?thesis by simp
next
  case (Cons x xs)
  with assms(1) have "x = p" and "\<forall>y\<in>set xs. y = p" by auto
  with Cons assms(2,3) show ?thesis by (simp add: structurize_same)
qed

text \<open>\<open>getGroups\<close> neither reads nor writes \<open>this.permissions\<close>.\<close>

lemma getGroups_permissions:
  "getGroups fuel csv timeNow db (u\<lparr>permissions := p\<rparr>) =
     (case getGroups fuel csv timeNow db u of
        Returned gs u' \<Rightarrow> Returned gs (u'\<lparr>permissions := p\<rparr>)
      | Threw e u' \<Rightarrow> Threw e (u'\<lparr>permissions := p\<rparr>)
      | NoReturn \<Rightarrow> NoReturn)"
  by (simp add: getGroups_def split: option.splits outcome.splits)

lemma hasPermission_single:
  assumes "permissions u = None"
      and "getGroups fuel csv timeNow db u = Returned gs u'"
      and "set (rawPermissions db (id_u u) gs) = {p}"
      and "insert_bits (split_dot p) [] = (t, None)"
      and "insert_bits (split_dot p) t = (t, None)"
  shows "hasPermission fuel csv timeNow db u q =
     (case walk (PObj t) (split_dot q) of
        Inl e \<Rightarrow> Threw e (u'\<lparr>permissions := Some t\<rparr>)
      | Inr ok \<Rightarrow> Returned ok (u'\<lparr>permissions := Some t\<rparr>))"
  using assms
  by (simp add: hasPermission_def getPermissions_def getGroups_permissions structurize_single)

lemma getGroups_one_grant:
  "getGroups (Suc 0) csv_plain 200 (db_one_grant p) (fresh_user 1)
     = Returned [(10, reporters_entry)] (fresh_user 1\<lparr>groups := Some [(10, reporters_entry)]\<rparr>)"
  by (simp add: example_defs run_defs reporters_entry_def)

lemma raw_one_grant:
  "rawPermissions (db_one_grant p) 1 [(10, reporters_entry)] = [p]"
  by (simp add: example_defs rawPermissions_def reporters_entry_def)

text \<open>
  Claim C4 (wildcard law). A user whose permissions have not been read yet, whose groups
  resolve, and whose permissions (those of the active groups and the user's own) are the
  one string \<open>reports.*\<close>, however often it is granted: \<open>hasPermission\<close> returns true
  for \<open>reports.export\<close> and for \<open>reports.export.csv\<close>, and false for
  \<open>other.export\<close>. The tree \<open>{reports: {'*': true}}\<close> is cached on the way.
\<close>

theorem wildcard_law:
  assumes "permissions u = None"
      and "getGroups fuel csv timeNow db u = Returned gs u'"
      and "set (rawPermissions db (id_u u) gs) = {''reports.*''}"
  shows "hasPermission fuel csv timeNow db u ''reports.export''
           = Returned True (u'\<lparr>permissions := Some [(''reports'', PObj [(''*'', PTrue)])]\<rparr>)
       \<and> hasPermission fuel csv timeNow db u ''reports.export.csv''
           = Returned True (u'\<lparr>permissions := Some [(''reports'', PObj [(''*'', PTrue)])]\<rparr>)
       \<and> hasPermission fuel csv timeNow db u ''other.export''
           = Returned False (u'\<lparr>permissions := Some [(''reports'', PObj [(''*'', PTrue)])]\<rparr>)"
proof -
  let ?t = "[(''reports'', PObj [(''*'', PTrue)])]"
  have 1: "insert_bits (split_dot ''reports.*'') [] = (?t, None)"
    by (simp add: tree_defs)
  have 2: "insert_bits (split_dot ''reports.*'') ?t = (?t, None)"
    by (simp add: tree_defs)
  note h = hasPermission_single [OF assms 1 2]
  show ?thesis
    by (simp add: h tree_defs)
qed

theorem wildcard_law_witness:
  "hasPermission (Suc 0) csv_plain 200 (db_one_grant ''reports.*'') (fresh_user 1) ''reports.export''
     = Returned True \<lparr> id_u = 1, groups = Some [(10, reporters_entry)],
                       permissions = Some [(''reports'', PObj [(''*'', PTrue)])] \<rparr>
   \<and> hasPermission (Suc 0) csv_plain 200 (db_one_grant ''reports.*'') (fresh_user 1) ''reports.export.csv''
     = Returned True \<lparr> id_u = 1, groups = Some [(10, reporters_entry)],
                       permissions = Some [(''reports'', PObj [(''*'', PTrue)])] \<rparr>
   \<and> hasPermission (Suc 0) csv_plain 200 (db_one_grant ''reports.*'') (fresh_user 1) ''other.export''
     = Returned False \<lparr> id_u = 1, groups = Some [(10, reporters_entry)],
                        permissions = Some [(''reports'', PObj [(''*'', PTrue)])] \<rparr>"
proof -
  have 1: "permissions (fresh_user 1) = None"
    by (simp add: fresh_user_def)
  have 2: "set (rawPermissions (db_one_grant ''reports.*'') (id_u (fresh_user 1)) [(10, reporters_entry)])
             = {''reports.*''}"
    by (simp add: raw_one_grant fresh_user_def)
  show ?thesis
    using wildcard_law [OF 1 getGroups_one_grant 2] by (simp add: fresh_user_def)
qed

subsection \<open>The exact-leaf law and the user without memberships\<close>

lemma hasPermission_eval:
  assumes "permissions u = None"
      and "getGroups fuel csv timeNow db u = Returned gs u'"
      and "structurize (rawPermissions db (id_u u) gs) [] = (t, None)"
  shows "hasPermission fuel csv timeNow db u q =
     (case walk (PObj t) (split_dot q) of
        Inl e \<Rightarrow> Threw e (u'\<lparr>permissions := Some t\<rparr>)
      | Inr ok \<Rightarrow> Returned ok (u'\<lparr>permissions := Some t\<rparr>))"
  using assms
  by (simp add: hasPermission_def getPermissions_def getGroups_permissions)

text \<open>
  Claim C3 as stated fails where user 1 holds the single grant \<open>reports.export\<close>:
  \<open>hasPermission('reports')\<close> returns true, since its one segment is consumed inside the
  tree, and \<open>hasPermission('reports.export.csv')\<close> does not return at all: \<open>'csv' in
  true\<close> throws a TypeError.
\<close>

theorem exact_leaf_counterexample:
  "hasPermission (Suc 0) csv_plain 200 (db_one_grant ''reports.export'') (fresh_user 1) ''reports''
     = Returned True \<lparr> id_u = 1, groups = Some [(10, reporters_entry)],
                       permissions = Some [(''reports'', PObj [(''export'', PTrue)])] \<rparr>
   \<and> hasPermission (Suc 0) csv_plain 200 (db_one_grant ''reports.export'') (fresh_user 1) ''reports.export.csv''
     = Threw TypeError \<lparr> id_u = 1, groups = Some [(10, reporters_entry)],
                       permissions = Some [(''reports'', PObj [(''export'', PTrue)])] \<rparr>"
proof -
  have 1: "permissions (fresh_user 1) = None"
    by (simp add: fresh_user_def)
  have 2: "structurize (rawPermissions (db_one_grant ''reports.export'') (id_u (fresh_user 1))
             [(10, reporters_entry)]) [] = ([(''reports'', PObj [(''export'', PTrue)])], None)"
    by (simp add: raw_one_grant fresh_user_def tree_defs)
  show ?thesis
    by (simp add: hasPermission_eval [OF 1 getGroups_one_grant 2] tree_defs)
      (simp add: fresh_user_def)
qed

text \<open>
  Claim C3 (exact-leaf law), amended. A user whose permissions have not been read yet,
  whose groups resolve, and whose permissions are the one string \<open>reports.export\<close>:
  \<open>hasPermission\<close> returns true for \<open>reports.export\<close> and also for \<open>reports\<close>,
  every segment being consumed inside the tree \<open>{reports: {export: true}}\<close>.
\<close>

theorem exact_leaf:
  assumes "permissions u = None"
      and "getGroups fuel csv timeNow db u = Returned gs u'"
      and "set (rawPermissions db (id_u u) gs) = {''reports.export''}"
  shows "hasPermission fuel csv timeNow db u ''reports.export''
           = Returned True (u'\<lparr>permissions := Some [(''reports'', PObj [(''export'', PTrue)])]\<rparr>)
       \<and> hasPermission fuel csv timeNow db u ''reports''
           = Returned True (u'\<lparr>permissions := Some [(''reports'', PObj [(''export'', PTrue)])]\<rparr>)"
proof -
  let ?t = "[(''reports'', PObj [(''export'', PTrue)])]"
  have 1: "insert_bits (split_dot ''reports.export'') [] = (?t, None)"
    by (simp add: tree_defs)
  have 2: "insert_bits (split_dot ''reports.export'') ?t = (?t, None)"
    by (simp add: tree_defs)
  note h = hasPermission_single [OF assms 1 2]
  show ?thesis
    by (simp add: h tree_defs)
qed

theorem exact_leaf_witness:
  "hasPermission (Suc 0) csv_plain 200 (db_one_grant ''reports.export'') (fresh_user 1) ''reports.export''
     = Returned True \<lparr> id_u = 1, groups = Some [(10, reporters_entry)],
                       permissions = Some [(''reports'', PObj [(''export'', PTrue)])] \<rparr>
   \<and> hasPermission (Suc 0) csv_plain 200 (db_one_grant ''reports.export'') (fresh_user 1) ''reports''
     = Returned True \<lparr> id_u = 1, groups = Some [(10, reporters_entry)],
                       permissions = Some [(''reports'', PObj [(''export'', PTrue)])] \<rparr>"
proof -
  have 1: "permissions (fresh_user 1) = None"
    by (simp add: fresh_user_def)
  have 2: "set (rawPermissions (db_one_grant ''reports.export'') (id_u (fresh_user 1)) [(10, reporters_entry)])
             = {''reports.export''}"
    by (simp add: raw_one_grant fresh_user_def)
  show ?thesis
    using exact_leaf [OF 1 getGroups_one_grant 2] by (simp add: fresh_user_def)
qed

lemma split_at_not_Nil: "split_at sep s \<noteq> []"
  by (induction s) (auto split: list.splits)

lemma direct_rows_none:
  "\<forall>r\<in>set (users_groups db). ug_user_id r \<noteq> uid \<Longrightarrow> direct_rows db uid = []"
  by (simp add: direct_rows_def filter_empty_conv)

lemma getGroups_no_rows:
  assumes "groups u = None" and "direct_rows db (id_u u) = []"
  shows "getGroups (Suc fuel) csv timeNow db u = Returned [] (u\<lparr>groups := Some []\<rparr>)"
  using assms by (simp add: getGroups_def)

lemma walk_empty:
  "\<not> inherited (hd (split_dot q)) \<Longrightarrow> walk (PObj []) (split_dot q) = Inr False"
  by (cases "split_dot q") (auto simp: split_at_not_Nil tree_defs)

text \<open>
  Claim C5, amended. A user with no stored membership, nothing cached: \<open>getGroups\<close>
  returns the empty map. If moreover no permission is granted to the user individually,
  \<open>hasPermission\<close> returns false for every path whose first segment is not the name of
  a property that \<open>{}\<close> inherits from \<open>Object.prototype\<close>.
\<close>

theorem no_memberships:
  assumes "groups u = None" and "permissions u = None"
      and "\<forall>r\<in>set (users_groups db). ug_user_id r \<noteq> id_u u"
      and "\<forall>p\<in>set (users_permissions db). fst p \<noteq> id_u u"
      and "\<not> inherited (hd (split_dot q))"
  shows "getGroups (Suc fuel) csv timeNow db u = Returned [] (u\<lparr>groups := Some []\<rparr>)
       \<and> hasPermission (Suc fuel) csv timeNow db u q
           = Returned False (u\<lparr>groups := Some [], permissions := Some []\<rparr>)"
proof -
  have rows: "direct_rows db (id_u u) = []"
    using assms(3) by (rule direct_rows_none)
  have g: "getGroups (Suc fuel) csv timeNow db u = Returned [] (u\<lparr>groups := Some []\<rparr>)"
    using assms(1) rows by (rule getGroups_no_rows)
  have raw: "rawPermissions db (id_u u) [] = []"
    using assms(4) by (simp add: rawPermissions_def filter_empty_conv)
  have "hasPermission (Suc fuel) csv timeNow db u q
          = Returned False (u\<lparr>groups := Some [], permissions := Some []\<rparr>)"
    using assms(2) walk_empty [OF assms(5)]
    by (simp add: hasPermission_def getPermissions_def getGroups_permissions g raw)
  with g show ?thesis by simp
qed

text \<open>
  Claim C5 as stated fails: user 1 has no membership, yet \<open>hasPermission('admin')\<close> is
  true when \<open>admin\<close> is granted to the user individually, and
  \<open>hasPermission('constructor')\<close> is true with nothing granted at all, because
  \<open>'constructor' in {}\<close> holds.
\<close>

theorem no_memberships_counterexample:
  "hasPermission (Suc 0) csv_plain 200 (db_own_grant ''admin'') (fresh_user 1) ''admin''
     = Returned True \<lparr> id_u = 1, groups = Some [], permissions = Some [(''admin'', PTrue)] \<rparr>
   \<and> hasPermission (Suc 0) csv_plain 200 db_empty (fresh_user 1) ''constructor''
     = Returned True \<lparr> id_u = 1, groups = Some [], permissions = Some [] \<rparr>"
  by (simp add: hasPermission_def getPermissions_def getGroups_def rawPermissions_def direct_rows_def
      db_own_grant_def db_empty_def fresh_user_def tree_defs)

theorem no_memberships_witness:
  "getGroups (Suc 0) csv_plain 200 db_empty (fresh_user 1)
     = Returned [] \<lparr> id_u = 1, groups = Some [], permissions = None \<rparr>
   \<and> hasPermission (Suc 0) csv_plain 200 db_empty (fresh_user 1) ''reports.export''
     = Returned False \<lparr> id_u = 1, groups = Some [], permissions = Some [] \<rparr>"
proof -
  have 1: "groups (fresh_user 1) = None" and 2: "permissions (fresh_user 1) = None"
    by (simp_all add: fresh_user_def)
  have 3: "\<forall>r\<in>set (users_groups db_empty). ug_user_id r \<noteq> id_u (fresh_user 1)"
    by (simp add: db_empty_def)
  have 4: "\<forall>p\<in>set (users_permissions db_empty). fst p \<noteq> id_u (fresh_user 1)"
    by (simp add: db_empty_def)
  have 5: "\<not> inherited (hd (split_dot ''reports.export''))"
    by (simp add: tree_defs)
  show ?thesis
    using no_memberships [OF 1 2 3 4 5, of 0 csv_plain 200] by (simp add: fresh_user_def)
qed

subsection \<open>Merging the windows\<close>

lemmas window_defs = db_children_def db_direct_and_child_def db_rejoined_def db_board_def
  result_entry_def

lemma foldl_min2_Num: "foldl min2 (Num a) (map Num fs) = Num (Min (insert a (set fs)))"
proof (induction fs arbitrary: a)
  case Nil
  then show ?case by simp
next
  case (Cons b fs)
  have "Min (insert a (insert b (set fs))) = Min (insert (min a b) (set fs))"
    by (cases "fs = []") (simp_all add: min.assoc)
  with Cons show ?case by (simp add: min2_def min_def)
qed

lemma Math_min_Num: "fs \<noteq> [] \<Longrightarrow> Math_min (map Num fs) = Num (Min (set fs))"
  by (cases fs) (simp_all add: Math_min_def min2_def foldl_min2_Num)

lemma foldl_max2_PosInf:
  "\<forall>v\<in>set vs. v = PosInf \<or> (\<exists>b. v = Num b) \<Longrightarrow> foldl max2 PosInf vs = PosInf"
  by (induction vs) (auto simp: max2_def)

lemma foldl_max2_Num: "foldl max2 (Num a) (map Num bs) = Num (Max (insert a (set bs)))"
proof (induction bs arbitrary: a)
  case Nil
  then show ?case by simp
next
  case (Cons b bs)
  have "Max (insert a (insert b (set bs))) = Max (insert (max a b) (set bs))"
    by (cases "bs = []") (simp_all add: max.assoc)
  with Cons show ?case by (simp add: max2_def max_def)
qed

lemma foldl_max2_some_PosInf:
  assumes "\<forall>v\<in>set vs. v = PosInf \<or> (\<exists>b. v = Num b)" and "PosInf \<in> set vs" and "acc = NegInf \<or> (\<exists>b. acc = Num b)"
  shows "foldl max2 acc vs = PosInf"
  using assms
proof (induction vs arbitrary: acc)
  case Nil
  then show ?case by simp
next
  case (Cons v vs)
  show ?case
  proof (cases "v = PosInf")
    case True
    with Cons.prems have "max2 acc v = PosInf" by (auto simp: max2_def)
    with Cons.prems(1) show ?thesis by (simp add: foldl_max2_PosInf)
  next
    case False
    with Cons.prems obtain b where v: "v = Num b" and rest: "PosInf \<in> set vs" by auto
    from Cons.prems(3) v have "\<exists>c. max2 acc v = Num c" by (auto simp: max2_def)
    with Cons.IH [of "max2 acc v"] Cons.prems(1) rest show ?thesis by simp
  qed
qed

lemma Math_max_expiry:
  assumes "ts \<noteq> []" and "Some 0 \<notin> set ts"
  shows "Math_max (map (\<lambda>t. if \<not> truthy (expiry t) then PosInf else expiry t) ts)
           = (if None \<in> set ts then PosInf else Num (Max (the ` set ts)))"
proof (cases "None \<in> set ts")
  case True
  let ?vs = "map (\<lambda>t. if \<not> truthy (expiry t) then PosInf else expiry t) ts"
  have "\<forall>v\<in>set ?vs. v = PosInf \<or> (\<exists>b. v = Num b)"
    by (auto simp: expiry_def split: option.splits)
  moreover have "PosInf \<in> set ?vs"
    using True by (force simp: expiry_def)
  ultimately show ?thesis
    using True by (simp add: Math_max_def foldl_max2_some_PosInf)
next
  case False
  then obtain bs where bs: "ts = map Some bs"
    by (metis ex_map_conv not_Some_eq)
  with assms have "bs \<noteq> []" "0 \<notin> set bs" by auto
  then have "map (\<lambda>t. if \<not> truthy (expiry t) then PosInf else expiry t) ts = map Num bs"
    unfolding bs by (auto simp: expiry_def)
  moreover have "the ` set ts = set bs"
    unfolding bs by (simp add: image_image)
  ultimately show ?thesis
    using False \<open>bs \<noteq> []\<close>
    by (cases bs) (simp_all add: Math_max_def max2_def foldl_max2_Num)
qed

text \<open>
  The merge law on the path that implements it. For a parent row whose children are all
  resolved, with starts \<open>fs\<close> and expiries \<open>ts\<close> (none of them the time 0, which
  JavaScript takes for no expiry): the window is the least start and, when no child is
  without expiry, the greatest expiry; \<open>null\<close> as soon as one child has no expiry.
\<close>

lemma merge_from_children:
  assumes "map_of prs (row_id r) = Some ids"
      and "those (map (map_of gs) ids) = Some cs" and "cs \<noteq> []"
      and "map (\<lambda>c. from_u (user c)) cs = map Num fs"
      and "map (\<lambda>c. to_u (user c)) cs = map expiry ts"
      and "Some 0 \<notin> set ts"
  shows "from_children r gs prs
           = Inr (Num (Min (set fs)), if None \<in> set ts then Null else Num (Max (the ` set ts)))"
proof -
  from assms(3,4) have fs: "fs \<noteq> []" by auto
  from assms(3,5) have ts: "ts \<noteq> []" by auto
  have "map (\<lambda>x. if \<not> truthy (to_u (user x)) then PosInf else to_u (user x)) cs
          = map (\<lambda>v. if \<not> truthy v then PosInf else v) (map (\<lambda>c. to_u (user c)) cs)"
    by (simp add: o_def)
  also have "\<dots> = map (\<lambda>t. if \<not> truthy (expiry t) then PosInf else expiry t) ts"
    by (simp add: assms(5) o_def)
  finally have to: "Math_max (map (\<lambda>x. if \<not> truthy (to_u (user x)) then PosInf else to_u (user x)) cs)
      = (if None \<in> set ts then PosInf else Num (Max (the ` set ts)))"
    using Math_max_expiry [OF ts assms(6)] by simp
  show ?thesis
    using assms(1,2) by (simp add: from_children_def assms(4) Math_min_Num [OF fs] to)
qed

text \<open>
  The instance of the merge law holds: with (10, 20) held in A and (5, null) in C, the entry
  synthesized for their parent B has the window (5, null) and is active exactly from 5 on.
\<close>

lemma merge_law_instance:
  "result_entry (getGroups (Suc (Suc 0)) csv_plain timeNow db_children (fresh_user 1)) 2
     = Some \<lparr> args = [], from_u = Num 5, to_u = Null, active = (5 \<le> timeNow), direct = False,
              children = Some [1, 3], name = ''B'' \<rparr>"
  by (simp add: example_defs run_defs window_defs) auto

text \<open>
  Claim C1 (merge law) at the inputs where the code departs from it, resolved at time 25.
  B is reached directly with (5, null) and through its child A with (10, 20): the claim
  gives (5, null), the entry of B holds (10, 20), is no longer direct and is inactive. C is
  reached by two stored rows, (10, 20) and (5, null): the claim gives (5, null), the entry
  holds (5, 20) and is inactive.
\<close>

theorem merge_law_failing_input:
  "result_entry (getGroups (Suc (Suc 0)) csv_plain 25 db_direct_and_child (fresh_user 1)) 2
     = Some \<lparr> args = [], from_u = Num 10, to_u = Num 20, active = False, direct = False,
              children = Some [1], name = ''B'' \<rparr>
   \<and> result_entry (getGroups (Suc (Suc 0)) csv_plain 25 db_rejoined (fresh_user 1)) 3
     = Some \<lparr> args = [], from_u = Num 5, to_u = Num 20, active = False, direct = True,
              children = None, name = ''C'' \<rparr>"
  by (simp add: example_defs run_defs window_defs)

text \<open>
  Claim C2 (end-to-end scenario) on the code, resolved at 2500: Committee is active with
  the window (2000, 3000), as claimed; Board is active, but its entry is the one synthesized
  from Committee, with the window (2000, 3000) instead of (1000, null) and \<open>direct\<close>
  false. Resolved at 3500, Board is inactive: its window does follow Committee's expiry.
\<close>

theorem board_scenario_failing_input:
  "result_entry (getGroups (Suc (Suc 0)) csv_plain 2500 db_board (fresh_user 1)) 5
     = Some \<lparr> args = [], from_u = Num 2000, to_u = Num 3000, active = True, direct = False,
              children = Some [7], name = ''Board'' \<rparr>
   \<and> result_entry (getGroups (Suc (Suc 0)) csv_plain 2500 db_board (fresh_user 1)) 7
     = Some \<lparr> args = [], from_u = Num 2000, to_u = Num 3000, active = True, direct = True,
              children = None, name = ''Committee'' \<rparr>
   \<and> result_entry (getGroups (Suc (Suc 0)) csv_plain 3500 db_board (fresh_user 1)) 5
     = Some \<lparr> args = [], from_u = Num 2000, to_u = Num 3000, active = False, direct = False,
              children = Some [7], name = ''Board'' \<rparr>"
  by (simp add: example_defs run_defs window_defs)

subsection \<open>Malformed arguments and the cache after a failure\<close>

lemma resolve_row_direct_reject:
  assumes "row_direct r \<noteq> Some False"
      and "csv (or_empty (user_args r)) = None \<or> csv (or_empty (group_args r)) = None"
  shows "resolve_row csv timeNow r gs prs = Inl ParseError"
  using assms
  by (auto simp: resolve_row_def first_record_def split: prod.splits option.splits list.splits)

lemma resolve_row_direct_error:
  assumes "row_direct r \<noteq> Some False" and "resolve_row csv timeNow r gs prs = Inl e"
  shows "e = ParseError"
  using assms
  by (auto simp: resolve_row_def first_record_def Let_def
      split: prod.splits option.splits list.splits sum.splits)

lemma for_rows_reject:
  assumes "\<forall>r\<in>set rows. row_direct r \<noteq> Some False"
      and "\<exists>r\<in>set rows. csv (or_empty (user_args r)) = None \<or> csv (or_empty (group_args r)) = None"
  shows "\<exists>st' nl'. for_rows csv timeNow rows st nl = (st', nl', Some ParseError)"
  using assms
proof (induction rows arbitrary: st nl)
  case Nil
  then show ?case by simp
next
  case (Cons r rows)
  show ?case
  proof (cases "resolve_row csv timeNow r (fst st) (snd st)")
    case (Inl e)
    with Cons.prems(1) have "e = ParseError"
      using resolve_row_direct_error [of r csv timeNow "fst st" "snd st" e] by simp
    with Inl show ?thesis by simp
  next
    case (Inr entry)
    with Cons.prems have rest: "\<exists>r\<in>set rows. csv (or_empty (user_args r)) = None \<or> csv (or_empty (group_args r)) = None"
      using resolve_row_direct_reject [of r csv timeNow "fst st" "snd st"] by auto
    from Cons.prems(1) have all: "\<forall>r\<in>set rows. row_direct r \<noteq> Some False" by simp
    show ?thesis
      using Inr Cons.IH [OF all rest] by (simp add: Let_def split: option.splits)
  qed
qed

lemma direct_rows_direct: "\<forall>r\<in>set (direct_rows db uid). row_direct r \<noteq> Some False"
  by (auto simp: direct_rows_def)

text \<open>
  Claim C8, amended. Nothing degrades a malformed argument text to the empty list: when
  \<open>csvParse\<close> rejects the \<open>user_args\<close> or the \<open>group_args\<close> text of one of the
  user's membership rows, \<open>getGroups\<close> rejects with that parse error.
\<close>

theorem malformed_args_reject:
  assumes "groups u = None"
      and "r \<in> set (direct_rows db (id_u u))"
      and "csv (or_empty (user_args r)) = None \<or> csv (or_empty (group_args r)) = None"
  shows "\<exists>u'. getGroups (Suc fuel) csv timeNow db u = Threw ParseError u'"
proof -
  from assms(2,3) have "\<exists>r\<in>set (direct_rows db (id_u u)).
      csv (or_empty (user_args r)) = None \<or> csv (or_empty (group_args r)) = None"
    by blast
  with direct_rows_direct obtain st' nl' where
    "for_rows csv timeNow (direct_rows db (id_u u)) ([], []) [] = (st', nl', Some ParseError)"
    using for_rows_reject by blast
  with assms(1) show ?thesis by (simp add: getGroups_def)
qed

text \<open>
  Claim C8 as stated fails: the second membership of user 1 stores the argument text
  \<open>"abc\<close>, an unclosed quoted field, and \<open>getGroups\<close> rejects with the parse error
  instead of completing with an empty argument list.
\<close>

theorem malformed_args_counterexample:
  "getGroups (Suc 0) csv_plain 200 db_bad_args (fresh_user 1)
     = Threw ParseError (fresh_user 1\<lparr>groups := Some [(10, reporters_entry)]\<rparr>)"
  by (simp add: example_defs run_defs db_bad_args_def reporters_entry_def)

theorem malformed_args_witness:
  "\<exists>u'. getGroups (Suc 0) csv_plain 200 db_bad_args (fresh_user 1) = Threw ParseError u'"
proof -
  let ?r = "hd (tl (direct_rows db_bad_args 1))"
  have 1: "groups (fresh_user 1) = None" by (simp add: fresh_user_def)
  have 2: "?r \<in> set (direct_rows db_bad_args (id_u (fresh_user 1)))"
    by (simp add: example_defs direct_rows_def db_bad_args_def)
  have 3: "csv_plain (or_empty (user_args ?r)) = None \<or> csv_plain (or_empty (group_args ?r)) = None"
    by (simp add: example_defs direct_rows_def db_bad_args_def or_empty_def)
  show ?thesis
    using malformed_args_reject [OF 1 2 3] by simp
qed

text \<open>
  Claim C9 as stated fails: the expansion throws at the second membership, and
  \<open>this.groups\<close> is left holding the entry of the first; the next \<open>getGroups\<close>
  returns this partial map instead of running the expansion again.
\<close>

theorem partial_cache_counterexample:
  "getGroups (Suc 0) csv_plain 200 db_bad_args (fresh_user 1)
     = Threw ParseError (fresh_user 1\<lparr>groups := Some [(10, reporters_entry)]\<rparr>)
   \<and> getGroups (Suc 0) csv_plain 200 db_bad_args (fresh_user 1\<lparr>groups := Some [(10, reporters_entry)]\<rparr>)
     = Returned [(10, reporters_entry)] (fresh_user 1\<lparr>groups := Some [(10, reporters_entry)]\<rparr>)"
  by (simp add: example_defs run_defs db_bad_args_def reporters_entry_def)

lemma for_rows_step:
  assumes "resolve_row csv t a (fst st) (snd st) = Inr entry"
  shows "for_rows csv t (a # rows) st nl
           = for_rows csv t rows (fst (for_rows csv t [a] st nl)) (fst (snd (for_rows csv t [a] st nl)))"
proof (cases "parent a")
  case None
  with assms show ?thesis by (simp add: Let_def)
next
  case (Some p)
  with assms show ?thesis by (cases "p = 0") (simp_all add: Let_def)
qed

text \<open>
  When the loop ends with an exception, the state it leaves is the state the rows before
  the failing one have produced.
\<close>

lemma for_rows_threw:
  "for_rows csv t rows st nl = (st', nl', Some e) \<Longrightarrow>
     \<exists>pre r post. rows = pre @ r # post
        \<and> for_rows csv t pre st nl = (st', nl', None)
        \<and> resolve_row csv t r (fst st') (snd st') = Inl e"
proof (induction rows arbitrary: st nl)
  case Nil
  then show ?case by simp
next
  case (Cons a rows)
  show ?case
  proof (cases "resolve_row csv t a (fst st) (snd st)")
    case (Inl e')
    with Cons.prems have "st' = st" "nl' = nl" "e' = e" by auto
    with Inl have "a # rows = [] @ a # rows \<and> for_rows csv t [] st nl = (st', nl', None)
        \<and> resolve_row csv t a (fst st') (snd st') = Inl e"
      by simp
    then show ?thesis by blast
  next
    case (Inr entry)
    define st2 where "st2 = fst (for_rows csv t [a] st nl)"
    define nl2 where "nl2 = fst (snd (for_rows csv t [a] st nl))"
    have step: "for_rows csv t (a # rs) st nl = for_rows csv t rs st2 nl2" for rs
      unfolding st2_def nl2_def using Inr by (rule for_rows_step)
    from Cons.prems step have "for_rows csv t rows st2 nl2 = (st', nl', Some e)" by simp
    from Cons.IH [OF this] obtain pre r post where
      p: "rows = pre @ r # post" "for_rows csv t pre st2 nl2 = (st', nl', None)"
         "resolve_row csv t r (fst st') (snd st') = Inl e"
      by blast
    with step have "a # rows = (a # pre) @ r # post \<and> for_rows csv t (a # pre) st nl = (st', nl', None)
        \<and> resolve_row csv t r (fst st') (snd st') = Inl e"
      by simp
    then show ?thesis by blast
  qed
qed

text \<open>
  The same for \<open>handleRows\<close>: the state it throws with is the one reached, in some round,
  by the rows of that round that come before the failing one.
\<close>

lemma handleRows_threw:
  "handleRows fuel csv t db rows st = Threw e st' \<Longrightarrow>
     \<exists>rs s0 pre r post nl. rs = pre @ r # post
        \<and> for_rows csv t pre s0 [] = (st', nl, None)
        \<and> resolve_row csv t r (fst st') (snd st') = Inl e"
proof (induction fuel arbitrary: rows st)
  case 0
  then show ?case by simp
next
  case (Suc fuel)
  obtain st1 nl1 err where f: "for_rows csv t rows st [] = (st1, nl1, err)"
    by (cases "for_rows csv t rows st []") auto
  show ?case
  proof (cases err)
    case (Some e')
    with f Suc.prems have "st1 = st'" "e' = e" by auto
    with f Some for_rows_threw [of csv t rows st "[]" st' nl1 e] show ?thesis by blast
  next
    case None
    with f Suc.prems have "handleRows fuel csv t db (parent_rows db nl1) st1 = Threw e st'"
      by (auto split: if_splits)
    then show ?thesis by (rule Suc.IH)
  qed
qed

text \<open>
  Claim C9, amended. \<open>this.groups\<close> is assigned before the expansion and filled row by
  row: when a call of \<open>getGroups\<close> throws, the cache is the map \<open>handleRows\<close> had
  filled when it threw, that is the entries stored up to the exception, nothing else of
  the object is changed, and every later call, whatever the database and the time, returns
  that very map without expanding again.
\<close>

theorem failed_expansion_cached:
  assumes "getGroups fuel csv timeNow db u = Threw e u'"
  shows "\<exists>st. handleRows fuel csv timeNow db (direct_rows db (id_u u)) ([], []) = Threw e st
           \<and> u' = u\<lparr>groups := Some (fst st)\<rparr>
           \<and> getGroups fuel' csv' timeNow' db' u' = Returned (fst st) u'"
  using assms
  by (auto simp: getGroups_def split: option.splits outcome.splits)

theorem failed_expansion_cached_witness:
  "handleRows (Suc 0) csv_plain 200 db_bad_args (direct_rows db_bad_args (id_u (fresh_user 1))) ([], [])
     = Threw ParseError ([(10, reporters_entry)], [])
   \<and> getGroups 5 csv_plain 900 db_empty (fresh_user 1\<lparr>groups := Some [(10, reporters_entry)]\<rparr>)
       = Returned [(10, reporters_entry)] (fresh_user 1\<lparr>groups := Some [(10, reporters_entry)]\<rparr>)"
proof -
  have run: "getGroups (Suc 0) csv_plain 200 db_bad_args (fresh_user 1)
     = Threw ParseError (fresh_user 1\<lparr>groups := Some [(10, reporters_entry)]\<rparr>)"
    by (simp add: example_defs run_defs db_bad_args_def reporters_entry_def)
  have thrown: "handleRows (Suc 0) csv_plain 200 db_bad_args
      (direct_rows db_bad_args (id_u (fresh_user 1))) ([], [])
     = Threw ParseError ([(10, reporters_entry)], [])"
    by (simp add: example_defs run_defs db_bad_args_def reporters_entry_def)
  from failed_expansion_cached [OF run, of 5 csv_plain 900 db_empty] thrown
  show ?thesis by auto
qed

subsection \<open>Termination of the expansion\<close>

lemma chain_ends_Suc: "chain_ends db n i \<Longrightarrow> chain_ends db (Suc n) i"
proof (induction n arbitrary: i)
  case 0
  then show ?case by (auto split: option.splits)
next
  case (Suc n)
  then show ?case by (fastforce split: option.splits)
qed

lemma chain_ends_mono: "n \<le> m \<Longrightarrow> chain_ends db n i \<Longrightarrow> chain_ends db m i"
proof (induction rule: dec_induct)
  case base
  then show ?case .
next
  case (step k)
  then show ?case using chain_ends_Suc by blast
qed

text \<open>
  \<open>nextLookup\<close> only ever receives the parents the rows name.
\<close>

lemma for_rows_lookup:
  "for_rows csv timeNow rows st nl = (st', nl', err) \<Longrightarrow>
     set nl' \<subseteq> set nl \<union> {p. \<exists>r\<in>set rows. parent r = Some p \<and> p \<noteq> 0}"
proof (induction rows arbitrary: st nl)
  case Nil
  then show ?case by simp
next
  case (Cons r rows)
  show ?case
  proof (cases "resolve_row csv timeNow r (fst st) (snd st)")
    case (Inl e)
    with Cons.prems show ?thesis by auto
  next
    case (Inr entry)
    show ?thesis
    proof (cases "parent r")
      case None
      with Inr Cons.prems Cons.IH show ?thesis by (fastforce simp: Let_def)
    next
      case (Some p)
      with Inr Cons.prems Cons.IH show ?thesis
        by (cases "p = 0") (fastforce simp: Let_def)+
    qed
  qed
qed

lemma chain_row_ends:
  assumes "chain_ends db n (gr_id g)" and "g \<in> set (groups_tbl db)" and "parent r = gr_parent g"
  shows "row_ends db n r"
  using assms by (cases n) (auto simp: row_ends_def split: option.splits)

lemma parent_rows_ends:
  assumes "\<forall>p\<in>set nl. chain_ends db n p"
  shows "\<forall>r\<in>set (parent_rows db nl). row_ends db n r"
proof
  fix r assume "r \<in> set (parent_rows db nl)"
  then obtain g where g: "g \<in> set (groups_tbl db)" "gr_id g \<in> set nl" "parent r = gr_parent g"
    by (auto simp: parent_rows_def)
  with assms show "row_ends db n r" by (auto intro: chain_row_ends)
qed

text \<open>
  Rows whose parent chains end within \<open>n\<close> steps are handled by \<open>n + 1\<close> calls.
\<close>

lemma handleRows_settles:
  "\<forall>r\<in>set rows. row_ends db n r \<Longrightarrow> handleRows (Suc n) csv timeNow db rows st \<noteq> NoReturn"
proof (induction n arbitrary: rows st)
  case 0
  obtain st' nl' err where f: "for_rows csv timeNow rows st [] = (st', nl', err)"
    by (cases "for_rows csv timeNow rows st []") auto
  from 0 have "\<forall>r\<in>set rows. \<forall>p. parent r = Some p \<longrightarrow> p = 0"
    by (auto simp: row_ends_def)
  with for_rows_lookup [OF f] have "\<forall>p. p \<notin> set nl'"
    by fastforce
  then have "nl' = []"
    by (cases nl') auto
  with f show ?case by (cases err) auto
next
  case (Suc n)
  obtain st' nl' err where f: "for_rows csv timeNow rows st [] = (st', nl', err)"
    by (cases "for_rows csv timeNow rows st []") auto
  from Suc.prems have "\<forall>r\<in>set rows. \<forall>p. parent r = Some p \<longrightarrow> p = 0 \<or> chain_ends db n p"
    by (auto simp: row_ends_def)
  with for_rows_lookup [OF f] have "\<forall>p\<in>set nl'. chain_ends db n p"
    by auto
  then have "\<forall>r\<in>set (parent_rows db nl'). row_ends db n r"
    by (rule parent_rows_ends)
  then have "handleRows (Suc n) csv timeNow db (parent_rows db nl') st' \<noteq> NoReturn"
    by (rule Suc.IH)
  with f show ?case by (cases err) auto
qed

lemma direct_rows_ends:
  assumes "\<forall>m\<in>set (users_groups db). ug_user_id m = uid \<longrightarrow> chain_ends db n (ug_group_id m)"
  shows "\<forall>r\<in>set (direct_rows db uid). row_ends db n r"
proof
  fix r assume "r \<in> set (direct_rows db uid)"
  then obtain m g where m: "m \<in> set (users_groups db)" "ug_user_id m = uid"
      and g: "g \<in> set (groups_tbl db)" "gr_id g = ug_group_id m" "parent r = gr_parent g"
    by (auto simp: direct_rows_def)
  from assms m g(2) have "chain_ends db n (gr_id g)" by simp
  then show "row_ends db n r" using g(1,3) by (rule chain_row_ends)
qed

text \<open>
  Claim C6, amended. When the parent chain of every group the user is a stored member of
  ends within \<open>n\<close> steps, \<open>getGroups\<close> settles (it returns or throws) as soon as more
  than \<open>n\<close> calls of \<open>handleRows\<close> are allowed: no infinite loop on a hierarchy of
  bounded depth, which has no cycle.
\<close>

theorem bounded_depth_settles:
  assumes "\<forall>m\<in>set (users_groups db). ug_user_id m = id_u u \<longrightarrow> chain_ends db n (ug_group_id m)"
      and "n < fuel"
  shows "getGroups fuel csv timeNow db u \<noteq> NoReturn"
proof -
  from assms(2) obtain k where k: "fuel = Suc k" "n \<le> k"
    by (cases fuel) auto
  with assms(1) have "\<forall>m\<in>set (users_groups db). ug_user_id m = id_u u \<longrightarrow> chain_ends db k (ug_group_id m)"
    using chain_ends_mono [of n k db] by blast
  then have "\<forall>r\<in>set (direct_rows db (id_u u)). row_ends db k r"
    by (rule direct_rows_ends)
  then have "handleRows (Suc k) csv timeNow db (direct_rows db (id_u u)) ([], []) \<noteq> NoReturn"
    by (rule handleRows_settles)
  with k show ?thesis
    by (auto simp: getGroups_def split: option.splits outcome.splits)
qed

theorem bounded_depth_settles_witness:
  "getGroups 2 csv_plain 2500 db_board (fresh_user 1) \<noteq> NoReturn"
proof -
  have 1: "\<forall>m\<in>set (users_groups db_board). ug_user_id m = id_u (fresh_user 1)
             \<longrightarrow> chain_ends db_board (Suc 0) (ug_group_id m)"
    by (simp add: db_board_def example_defs)
  have 2: "Suc 0 < 2" by simp
  show ?thesis
    using bounded_depth_settles [OF 1 2] .
qed

lemma those_same:
  "set l \<subseteq> {x} \<Longrightarrow> map_of gs x = Some e \<Longrightarrow> those (map (map_of gs) l) = Some (replicate (length l) e)"
  by (induction l) auto

lemma min_same: "foldl min2 (Num a) (replicate n (Num a)) = Num a"
  by (induction n) (auto simp: min2_def)

lemma Math_min_same: "0 < n \<Longrightarrow> Math_min (replicate n (Num a)) = Num a"
  by (cases n) (auto simp: Math_min_def min2_def min_same)

lemma max_inf: "foldl max2 PosInf (replicate n PosInf) = PosInf"
  by (induction n) (auto simp: max2_def)

lemma Math_max_inf: "0 < n \<Longrightarrow> Math_max (replicate n PosInf) = PosInf"
  by (cases n) (auto simp: Math_max_def max2_def max_inf)

lemma from_children_cycle:
  assumes "map_of prs (row_id r) = Some l" and "l \<noteq> []" and "set l \<subseteq> {x}"
      and "map_of gs x = Some e" and "from_u (user e) = Num 10" and "to_u (user e) = Null"
  shows "from_children r gs prs = Inr (Num 10, Null)"
  using assms
  by (simp add: from_children_def those_same map_replicate_const Math_min_same Math_max_inf)

text \<open>
  One round on the cycle: the parent row of \<open>y\<close> is resolved from the entry of \<open>x\<close>,
  \<open>x\<close> is looked up next, and the roles of the two groups are exchanged.
\<close>

lemma cycle_round:
  assumes "(x = 1 \<and> y = 2) \<or> (x = 2 \<and> y = 1)" and "cycle_inv x y gs prs"
  shows "\<exists>gs' prs'. for_rows csv_plain timeNow (parent_rows db_cycle [y]) (gs, prs) [] = ((gs', prs'), [x], None)
           \<and> cycle_inv y x gs' prs'"
proof -
  from assms(2) obtain e l where e: "map_of gs x = Some e" "from_u (user e) = Num 10" "to_u (user e) = Null"
    and l: "map_of prs y = Some l" "l \<noteq> []" "set l \<subseteq> {x}"
    and l': "\<forall>l. map_of prs x = Some l \<longrightarrow> set l \<subseteq> {y}"
    by (auto simp: cycle_inv_def)
  define r where "r = hd (parent_rows db_cycle [y])"
  have rows: "parent_rows db_cycle [y] = [r]"
    using assms(1) by (auto simp: r_def parent_rows_def db_cycle_def plain_group_def)
  have r: "row_id r = y" "parent r = Some x" "row_direct r = Some False"
      "user_args r = None" "group_args r = None"
    using assms(1) by (auto simp: r_def parent_rows_def db_cycle_def plain_group_def)
  have fc: "from_children r gs prs = Inr (Num 10, Null)"
    using l e by (intro from_children_cycle [where l = l and x = x and e = e]) (simp_all add: r)
  obtain entry where entry: "resolve_row csv_plain timeNow r gs prs = Inr entry"
      "from_u (user entry) = Num 10" "to_u (user entry) = Null"
    by (simp add: resolve_row_def fc r first_record_def or_empty_def csv_plain_def)
  have xy: "x \<noteq> y" "x \<noteq> 0" using assms(1) by auto
  let ?st = "push_pairing x y (AList.update y entry gs, prs)"
  have run: "for_rows csv_plain timeNow (parent_rows db_cycle [y]) (gs, prs) [] = (?st, [x], None)"
    by (simp add: rows entry r xy)
  have g: "map_of (fst ?st) y = Some entry"
    using xy by (simp add: push_pairing_def update_conv' map_of_map_entry)
  let ?L = "(case map_of prs x of None \<Rightarrow> [] | Some l \<Rightarrow> l) @ [y]"
  have p1: "map_of (snd ?st) x = Some ?L"
    by (simp add: push_pairing_def update_conv')
  have p2: "map_of (snd ?st) y = Some l"
    using xy l(1) by (simp add: push_pairing_def update_conv')
  have L: "?L \<noteq> []" "set ?L \<subseteq> {y}"
    using l' by (cases "map_of prs x"; simp)+
  have inv: "cycle_inv y x (fst ?st) (snd ?st)"
    unfolding cycle_inv_def
  proof (intro conjI)
    show "\<exists>e. map_of (fst ?st) y = Some e \<and> from_u (user e) = Num 10 \<and> to_u (user e) = Null"
      using g entry(2,3) by blast
    show "\<exists>l. map_of (snd ?st) x = Some l \<and> l \<noteq> [] \<and> set l \<subseteq> {y}"
      using p1 L by blast
    show "\<forall>l. map_of (snd ?st) y = Some l \<longrightarrow> set l \<subseteq> {x}"
      using p2 l(3) by auto
  qed
  show ?thesis
    using run inv by (cases ?st) auto
qed

lemma cycle_never_returns:
  assumes "(x = 1 \<and> y = 2) \<or> (x = 2 \<and> y = 1)" and "cycle_inv x y gs prs"
  shows "handleRows fuel csv_plain timeNow db_cycle (parent_rows db_cycle [y]) (gs, prs) = NoReturn"
  using assms
proof (induction fuel arbitrary: x y gs prs)
  case 0
  then show ?case by simp
next
  case (Suc fuel)
  from cycle_round [OF Suc.prems] obtain gs' prs' where
    run: "for_rows csv_plain timeNow (parent_rows db_cycle [y]) (gs, prs) [] = ((gs', prs'), [x], None)"
    and inv: "cycle_inv y x gs' prs'"
    by blast
  from Suc.prems(1) have "(y = 1 \<and> x = 2) \<or> (y = 2 \<and> x = 1)" by auto
  then have "handleRows fuel csv_plain timeNow db_cycle (parent_rows db_cycle [x]) (gs', prs') = NoReturn"
    using inv by (rule Suc.IH)
  with run show ?case by simp
qed

text \<open>
  Claim C6 as stated fails on a cycle in the parent pointers: user 1 is a member of A,
  whose parent is B, whose parent is A. Every round stores the parent again and pushes its
  parent on \<open>nextLookup\<close>, so no number of calls of \<open>handleRows\<close> is enough for
  \<open>getGroups\<close> to return.
\<close>

theorem cycle_counterexample:
  "\<forall>fuel. getGroups fuel csv_plain 200 db_cycle (fresh_user 1) = NoReturn"
proof
  fix fuel
  show "getGroups fuel csv_plain 200 db_cycle (fresh_user 1) = NoReturn"
  proof (cases fuel)
    case 0
    then show ?thesis by (simp add: getGroups_def fresh_user_def)
  next
    case (Suc k)
    define st where "st = fst (for_rows csv_plain 200 (direct_rows db_cycle 1) ([], []) [])"
    have first: "for_rows csv_plain 200 (direct_rows db_cycle 1) ([], []) [] = (st, [2], None)"
      by (simp add: st_def example_defs run_defs db_cycle_def)
    have inv: "cycle_inv 1 2 (fst st) (snd st)"
      by (simp add: st_def example_defs run_defs db_cycle_def cycle_inv_def)
    have "handleRows k csv_plain 200 db_cycle (parent_rows db_cycle [2]) (fst st, snd st) = NoReturn"
      using inv by (intro cycle_never_returns [where x = 1]) simp_all
    with first Suc show ?thesis
      by (simp add: getGroups_def fresh_user_def)
  qed
qed

subsection \<open>Ending a membership that is only inherited\<close>

lemma inactive_idem [simp]: "inactive (inactive e) = inactive e"
  by (simp add: inactive_def)

lemma inactive_fields [simp]:
  "from_u (user (inactive e)) = from_u (user e)"
  "to_u (user (inactive e)) = to_u (user e)"
  by (simp_all add: inactive_def)

lemma forget_active_idem [simp]: "forget_active (forget_active gs) = forget_active gs"
  by (simp add: forget_active_def)

lemma map_of_forget: "map_of (forget_active gs) k = map_option inactive (map_of gs k)"
  by (induction gs) (auto simp: forget_active_def)

lemma forget_update:
  "forget_active (AList.update k e gs) = AList.update k (inactive e) (forget_active gs)"
  by (induction gs) (auto simp: forget_active_def)

lemma forget_map_entry:
  "(\<And>e. inactive (f e) = f (inactive e)) \<Longrightarrow>
     forget_active (AList.map_entry k f gs) = AList.map_entry k f (forget_active gs)"
  by (induction gs) (auto simp: forget_active_def)

lemma forget_push:
  "push_pairing p i (forget_active gs, prs)
     = (forget_active (fst (push_pairing p i (gs, prs))), snd (push_pairing p i (gs, prs)))"
  by (simp add: push_pairing_def forget_map_entry inactive_def)

lemma already_present_forget: "already_present r (forget_active gs) = already_present r gs"
  by (simp add: already_present_def map_of_forget split: option.splits)

lemma those_forget:
  "those (map (map_of (forget_active gs)) ids) = map_option (map inactive) (those (map (map_of gs) ids))"
proof (induction ids)
  case Nil
  then show ?case by simp
next
  case (Cons a ids)
  then show ?case
    by (cases "map_of gs a"; cases "those (map (map_of gs) ids)") (simp_all add: map_of_forget)
qed

lemma from_children_forget: "from_children r (forget_active gs) prs = from_children r gs prs"
  by (simp add: from_children_def those_forget o_def split: option.splits cong: if_cong)

lemma resolve_row_forget:
  "map_sum id inactive (resolve_row csv t r (forget_active gs) prs)
     = map_sum id inactive (resolve_row csv t' r gs prs)"
  by (simp add: resolve_row_def already_present_forget from_children_forget inactive_def Let_def
      split: sum.splits prod.splits)

lemma for_rows_forget:
  "forget_rows (for_rows csv t rows (gs, prs) nl)
     = forget_rows (for_rows csv t0 rows (forget_active gs, prs) nl)"
proof (induction rows arbitrary: gs prs nl t)
  case Nil
  then show ?case by (simp add: forget_rows_def)
next
  case (Cons r rows)
  note rel = resolve_row_forget [of csv t0 r gs prs t]
  show ?case
  proof (cases "resolve_row csv t r gs prs")
    case (Inl e)
    with rel have "resolve_row csv t0 r (forget_active gs) prs = Inl e"
      by (cases "resolve_row csv t0 r (forget_active gs) prs") auto
    with Inl show ?thesis by (simp add: forget_rows_def)
  next
    case (Inr ea)
    with rel obtain eb where eb: "resolve_row csv t0 r (forget_active gs) prs = Inr eb"
        "inactive eb = inactive ea"
      by (cases "resolve_row csv t0 r (forget_active gs) prs") auto
    let ?k = "row_id r"
    have step: "forget_rows (for_rows csv t' rows (AList.update ?k ea gs, prs) nl')
        = forget_rows (for_rows csv t0 rows (AList.update ?k eb (forget_active gs), prs) nl')" for t' nl'
      using Cons.IH [of t' "AList.update ?k ea gs" prs nl']
        Cons.IH [of t0 "AList.update ?k eb (forget_active gs)" prs nl']
      by (simp add: forget_update eb(2))
    have step': "forget_rows (for_rows csv t' rows (push_pairing p ?k (AList.update ?k ea gs, prs)) nl')
        = forget_rows (for_rows csv t0 rows (push_pairing p ?k (AList.update ?k eb (forget_active gs), prs)) nl')"
      for t' nl' p
    proof -
      obtain ga pa where a: "push_pairing p ?k (AList.update ?k ea gs, prs) = (ga, pa)"
        by (cases "push_pairing p ?k (AList.update ?k ea gs, prs)") auto
      obtain gb pb where b: "push_pairing p ?k (AList.update ?k eb (forget_active gs), prs) = (gb, pb)"
        by (cases "push_pairing p ?k (AList.update ?k eb (forget_active gs), prs)") auto
      have "push_pairing p ?k (forget_active (AList.update ?k ea gs), prs) = (forget_active ga, pa)"
        by (simp add: forget_push a)
      moreover have "push_pairing p ?k (forget_active (AList.update ?k eb (forget_active gs)), prs) = (forget_active gb, pb)"
        by (simp add: forget_push b)
      moreover have "forget_active (AList.update ?k ea gs) = forget_active (AList.update ?k eb (forget_active gs))"
        by (simp add: forget_update eb(2))
      ultimately have eq: "forget_active ga = forget_active gb" "pa = pb"
        by simp_all
      show ?thesis
        using Cons.IH [of t' ga pa nl'] Cons.IH [of t0 gb pb nl'] by (simp add: a b eq)
    qed
    show ?thesis
      using Inr eb(1) step step' by (simp add: Let_def split: option.splits)
  qed
qed

lemma handleRows_forget:
  "forget_outcome (handleRows fuel csv t db rows (gs, prs))
     = forget_outcome (handleRows fuel csv t0 db rows (forget_active gs, prs))"
proof (induction fuel arbitrary: rows gs prs t)
  case 0
  then show ?case by simp
next
  case (Suc fuel)
  obtain ga pa nla erra where a: "for_rows csv t rows (gs, prs) [] = ((ga, pa), nla, erra)"
    by (cases "for_rows csv t rows (gs, prs) []") auto
  obtain gb pb nlb errb where b: "for_rows csv t0 rows (forget_active gs, prs) [] = ((gb, pb), nlb, errb)"
    by (cases "for_rows csv t0 rows (forget_active gs, prs) []") auto
  from for_rows_forget [of csv t rows gs prs "[]" t0] a b
  have eq: "forget_active ga = forget_active gb" "pa = pb" "nla = nlb" "erra = errb"
    by (simp_all add: forget_rows_def)
  show ?case
  proof (cases errb)
    case (Some e)
    with a b eq show ?thesis by (simp add: forget_outcome_def)
  next
    case None
    show ?thesis
    proof (cases "nlb = []")
      case True
      with None a b eq show ?thesis by (simp add: forget_outcome_def)
    next
      case False
      have "forget_outcome (handleRows fuel csv t db (parent_rows db nlb) (ga, pb))
          = forget_outcome (handleRows fuel csv t0 db (parent_rows db nlb) (gb, pb))"
        using Suc.IH [of t "parent_rows db nlb" ga pb] Suc.IH [of t0 "parent_rows db nlb" gb pb]
        by (simp add: eq)
      with False None a b eq show ?thesis by (cases nlb) simp_all
    qed
  qed
qed

text \<open>Whether and how \<open>getGroups\<close> settles does not depend on the time it is called at.\<close>

lemma getGroups_any_time:
  assumes "getGroups fuel csv t db u = Returned gs u'"
  shows "\<exists>gs' u''. getGroups fuel csv t' db u = Returned gs' u''"
proof (cases "groups u")
  case (Some g)
  then show ?thesis by (simp add: getGroups_def)
next
  case None
  let ?rows = "direct_rows db (id_u u)"
  from assms None obtain st where "handleRows fuel csv t db ?rows ([], []) = Returned () st"
    by (auto simp: getGroups_def split: outcome.splits)
  moreover have "forget_outcome (handleRows fuel csv t db ?rows ([], []))
      = forget_outcome (handleRows fuel csv t' db ?rows ([], []))"
    using handleRows_forget [of fuel csv t db ?rows "[]" "[]" t'] by (simp add: forget_active_def)
  ultimately obtain st' where "handleRows fuel csv t' db ?rows ([], []) = Returned () st'"
    by (cases "handleRows fuel csv t' db ?rows ([], [])") (auto simp: forget_outcome_def)
  with None show ?thesis by (simp add: getGroups_def)
qed

text \<open>
  The \<open>update\<close> changes nothing when no row matches.
\<close>

lemma end_rows_unchanged:
  "\<forall>m\<in>set rows. \<not> (ug_user_id m = uid \<and> ug_group_id m = gid) \<Longrightarrow> end_rows timeNow uid gid rows = rows"
  by (induction rows) (auto simp: end_rows_def)

lemma getGroups_drop_cache:
  "getGroups fuel csv t db u = Returned gs u1 \<Longrightarrow> u1\<lparr>groups := None\<rparr> = u\<lparr>groups := None\<rparr>"
  by (auto simp: getGroups_def split: option.splits outcome.splits)

text \<open>
  Claim C10 as stated fails on a map that a failed expansion has left in the cache. On
  \<open>db_partial\<close> the expansion stores A and the inherited B and throws at C; no row links
  user 1 to B; \<open>endGroupMembership\<close> for B finds B in the cached map, drops the map,
  expands again and throws the parse error instead of returning true.
\<close>

theorem end_inherited_membership_counterexample:
  "getGroups (Suc (Suc (Suc 0))) csv_plain 25 db_partial (fresh_user 1) = Threw ParseError partial_user
   \<and> map_option (\<lambda>e. direct (user e)) (map_of (the (groups partial_user)) 2) = Some False
   \<and> filter (\<lambda>m. ug_user_id m = 1 \<and> ug_group_id m = 2) (users_groups db_partial) = []
   \<and> endGroupMembership (Suc (Suc (Suc 0))) csv_plain 30 30 31 db_partial partial_user (ById 2)
       = Threw ParseError (partial_user, db_partial)"
  by (simp add: example_defs run_defs db_partial_def partial_user_def endGroupMembership_def
      resolve_ref_def getGroupById_def end_rows_def)

text \<open>
  Claim C10, amended. The group map of a user, cached or resolved by the call, holds the
  group G as an inherited entry (\<open>direct\<close> false), no stored membership row links the user
  to G, and the groups of the user resolve from the tables (an expansion from nothing
  cached returns, at some time): whatever the times of the three clock readings,
  \<open>endGroupMembership\<close> returns true and the database, so every membership row, is as
  before. (\<open>groups.has\<close> finds the inherited entry, the \<open>update\<close> matches no row, and
  the second expansion runs on the same rows.)
\<close>

theorem end_inherited_membership:
  assumes "getGroups fuel csv t0 db u = Returned gs u1"
      and "getGroups fuel csv t db (u\<lparr>groups := None\<rparr>) = Returned gs' u'"
      and "resolve_ref csv db ref = Some g"
      and "map_of gs (id_g g) = Some e"
      and "direct (user e) = False"
      and "\<forall>m\<in>set (users_groups db). \<not> (ug_user_id m = id_u u \<and> ug_group_id m = id_g g)"
  shows "\<exists>u2. endGroupMembership fuel csv t0 timeNow t1 db u ref = Returned True (u2, db)"
proof -
  have u1: "u1\<lparr>groups := None\<rparr> = u\<lparr>groups := None\<rparr>"
    using assms(1) by (rule getGroups_drop_cache)
  have db: "db\<lparr>users_groups := end_rows timeNow (id_u u) (id_g g) (users_groups db)\<rparr> = db"
    using end_rows_unchanged [OF assms(6)] by simp
  from getGroups_any_time [OF assms(2)] obtain gs2 u2 where
    again: "getGroups fuel csv t1 db (u\<lparr>groups := None\<rparr>) = Returned gs2 u2"
    by blast
  show ?thesis
    using assms(1,3,4) by (simp add: endGroupMembership_def u1 db again)
qed

theorem end_inherited_membership_witness:
  "\<exists>u2. endGroupMembership (Suc (Suc 0)) csv_plain 30 40 41 db_children
           (the (state_after (getGroups (Suc (Suc 0)) csv_plain 25 db_children (fresh_user 1)))) (ById 2)
          = Returned True (u2, db_children)"
proof -
  let ?out = "getGroups (Suc (Suc 0)) csv_plain 25 db_children (fresh_user 1)"
  define gs where "gs = the (returned ?out)"
  define u where "u = the (state_after ?out)"
  define e where "e = the (map_of gs 2)"
  define g where "g = the (getGroupById csv_plain db_children 2)"
  have out: "?out = Returned gs u"
    by (simp add: gs_def u_def returned_def state_after_def example_defs run_defs window_defs)
  have u: "u = fresh_user 1\<lparr>groups := Some gs\<rparr>"
    using out by (auto simp: getGroups_def fresh_user_def split: outcome.splits)
  have 1: "getGroups (Suc (Suc 0)) csv_plain 30 db_children u = Returned gs u"
    by (simp add: u getGroups_def)
  have 2: "getGroups (Suc (Suc 0)) csv_plain 25 db_children (u\<lparr>groups := None\<rparr>) = Returned gs u"
    using out by (simp add: u fresh_user_def)
  have 3: "resolve_ref csv_plain db_children (ById 2) = Some g"
    by (simp add: g_def resolve_ref_def getGroupById_def window_defs example_defs)
  have g: "id_g g = 2"
    by (simp add: g_def resolve_ref_def getGroupById_def window_defs example_defs)
  have 4: "map_of gs (id_g g) = Some e"
    by (simp add: g e_def gs_def returned_def example_defs run_defs window_defs)
  have 5: "direct (user e) = False"
    by (simp add: e_def gs_def returned_def example_defs run_defs window_defs)
  have 6: "\<forall>m\<in>set (users_groups db_children).
             \<not> (ug_user_id m = id_u u \<and> ug_group_id m = id_g g)"
    by (simp add: g u window_defs example_defs)
  show ?thesis
    using end_inherited_membership [OF 1 2 3 4 5 6, of 40 41] by (simp add: u_def)
qed

text \<open>
  For an object with nothing cached the first call is the expansion, and it is enough
  that this call returns.
\<close>

lemma end_inherited_fresh:
  assumes "groups u = None"
      and "getGroups fuel csv t0 db u = Returned gs u1"
      and "resolve_ref csv db ref = Some g"
      and "map_of gs (id_g g) = Some e"
      and "\<forall>m\<in>set (users_groups db). \<not> (ug_user_id m = id_u u \<and> ug_group_id m = id_g g)"
  shows "\<exists>u2. endGroupMembership fuel csv t0 timeNow t1 db u ref = Returned True (u2, db)"
proof -
  have u: "u\<lparr>groups := None\<rparr> = u"
    using assms(1) by simp
  have u1: "u1\<lparr>groups := None\<rparr> = u"
    using getGroups_drop_cache [OF assms(2)] u by simp
  have db: "db\<lparr>users_groups := end_rows timeNow (id_u u) (id_g g) (users_groups db)\<rparr> = db"
    using end_rows_unchanged [OF assms(5)] by simp
  from getGroups_any_time [OF assms(2)] obtain gs2 u2 where
    again: "getGroups fuel csv t1 db u = Returned gs2 u2"
    by blast
  show ?thesis
    using assms(2,3,4) by (simp add: endGroupMembership_def u1 db again)
qed

subsection \<open>The caches after joining and leaving\<close>

lemmas cache_defs = db_editors_def db_joined_def checked_user_def member_user_def editors_def
  staff_def returned_def state_after_def

lemmas join_defs = addToGroup_def endGroupMembership_def addUser_def resolve_ref_def
  getGroupById_def end_rows_def

lemma getGroups_returned:
  assumes "getGroups fuel csv t db u = Returned gs u1"
  shows "permissions u1 = permissions u" and "groups u1 = Some gs"
    and "u1\<lparr>groups := None\<rparr> = u\<lparr>groups := None\<rparr>"
  using assms by (auto simp: getGroups_def split: option.splits outcome.splits)

lemma getPermissions_cached:
  "permissions u = Some tree \<Longrightarrow> getPermissions fuel csv t db u = Returned tree u"
  by (simp add: getPermissions_def)

lemma endGroupMembership_true:
  assumes "endGroupMembership fuel csv t0 timeNow t1 db u ref = Returned True (u', db')"
  shows "\<exists>gs. getGroups fuel csv t1 db' (u\<lparr>groups := None\<rparr>) = Returned gs u' \<and> groups u' = Some gs"
    and "permissions u' = permissions u"
proof -
  from assms obtain gs u1 gs' where
    first: "getGroups fuel csv t0 db u = Returned gs u1"
    and again: "getGroups fuel csv t1 db' (u1\<lparr>groups := None\<rparr>) = Returned gs' u'"
    by (auto simp: endGroupMembership_def Let_def split: outcome.splits option.splits if_splits)
  from getGroups_returned [OF first] getGroups_returned [OF again] again
  show "\<exists>gs. getGroups fuel csv t1 db' (u\<lparr>groups := None\<rparr>) = Returned gs u' \<and> groups u' = Some gs"
    and "permissions u' = permissions u"
    by auto
qed

lemma addToGroup_joined:
  assumes "addToGroup fuel csv encode t0 timeNow t1 db u ref as timeFrom timeTo = Returned (Some g) (u', db')"
  shows "\<exists>gs u1 e. getGroups fuel csv t1 db' u = Returned gs u1
            \<and> groups u' = Some (AList.update (id_g g) e gs)"
    and "permissions u' = permissions u"
proof -
  from assms obtain gs u1 e where
    first: "getGroups fuel csv t1 db' u = Returned gs u1"
    and u': "u' = u1\<lparr>groups := Some (AList.update (id_g g) e gs)\<rparr>"
    by (auto simp: addToGroup_def Let_def split: outcome.splits option.splits prod.splits bool.splits)
  from getGroups_returned [OF first] u' first
  show "\<exists>gs u1 e. getGroups fuel csv t1 db' u = Returned gs u1
            \<and> groups u' = Some (AList.update (id_g g) e gs)"
    and "permissions u' = permissions u"
    by auto
qed

text \<open>
  Claim C7, amended. When \<open>endGroupMembership\<close> returns true, the cached group map has
  been dropped and is the result of a full expansion on the updated database. When
  \<open>addToGroup\<close> returns the group, the cached map is not invalidated: it is the map
  \<open>getGroups\<close> returned (the cached one, if there was one) with the entry of the group
  set. Neither method touches \<open>this.permissions\<close>: a tree cached before the call is
  what \<open>getPermissions\<close>, and so \<open>hasPermission\<close>, answers from afterwards.
\<close>

theorem cache_after_mutation:
  "(endGroupMembership fuel csv t0 timeNow t1 db u ref = Returned True (u', db') \<longrightarrow>
      (\<exists>gs. getGroups fuel csv t1 db' (u\<lparr>groups := None\<rparr>) = Returned gs u' \<and> groups u' = Some gs)
      \<and> permissions u' = permissions u
      \<and> (\<forall>tree. permissions u = Some tree \<longrightarrow> getPermissions fuel csv t2 db' u' = Returned tree u'))
   \<and> (addToGroup fuel csv encode t0 timeNow t1 db u ref as timeFrom timeTo = Returned (Some g) (u', db') \<longrightarrow>
      (\<exists>gs u1 e. getGroups fuel csv t1 db' u = Returned gs u1
          \<and> groups u' = Some (AList.update (id_g g) e gs))
      \<and> permissions u' = permissions u
      \<and> (\<forall>tree. permissions u = Some tree \<longrightarrow> getPermissions fuel csv t2 db' u' = Returned tree u'))"
proof (intro conjI impI allI)
  assume run: "endGroupMembership fuel csv t0 timeNow t1 db u ref = Returned True (u', db')"
  show "\<exists>gs. getGroups fuel csv t1 db' (u\<lparr>groups := None\<rparr>) = Returned gs u' \<and> groups u' = Some gs"
    using run by (rule endGroupMembership_true)
  show p: "permissions u' = permissions u"
    using run by (rule endGroupMembership_true)
  fix tree assume "permissions u = Some tree"
  with p show "getPermissions fuel csv t2 db' u' = Returned tree u'"
    by (simp add: getPermissions_cached)
next
  assume run: "addToGroup fuel csv encode t0 timeNow t1 db u ref as timeFrom timeTo = Returned (Some g) (u', db')"
  show "\<exists>gs u1 e. getGroups fuel csv t1 db' u = Returned gs u1
          \<and> groups u' = Some (AList.update (id_g g) e gs)"
    using run by (rule addToGroup_joined)
  show p: "permissions u' = permissions u"
    using run by (rule addToGroup_joined)
  fix tree assume "permissions u = Some tree"
  with p show "getPermissions fuel csv t2 db' u' = Returned tree u'"
    by (simp add: getPermissions_cached)
qed

text \<open>
  Claim C7 as stated fails. User 1, both caches filled, joins Editors with
  \<open>addToGroup\<close>: the cached map gets the entry of Editors alone, without its parent
  Staff that a full expansion finds, the cached tree stays empty, and
  \<open>hasPermission('edit')\<close> still returns false where a fresh resolution returns true.
  User 1, a member with both caches filled, leaves Editors at 400 with
  \<open>endGroupMembership\<close>: at 500 \<open>hasPermission('edit')\<close> still returns true from the
  cached tree, where a fresh resolution returns false.
\<close>

theorem cache_counterexample:
  "state_after (hasPermission (Suc (Suc 0)) csv_plain 100 db_editors (fresh_user 1) ''edit'')
     = Some checked_user
   \<and> (\<exists>u db. addToGroup (Suc (Suc 0)) csv_plain encode_plain 200 200 200 db_editors checked_user
                  (ById 20) (Some []) None None = Returned (Some editors) (u, db)
        \<and> db = db_joined
        \<and> permissions u = Some []
        \<and> map_option (map fst) (groups u) = Some [20]
        \<and> returned (hasPermission (Suc (Suc 0)) csv_plain 300 db u ''edit'') = Some False
        \<and> returned (hasPermission (Suc (Suc 0)) csv_plain 300 db (fresh_user 1) ''edit'') = Some True
        \<and> map_option (map fst) (returned (getGroups (Suc (Suc 0)) csv_plain 300 db (fresh_user 1)))
            = Some [20, 21])
   \<and> state_after (hasPermission (Suc (Suc 0)) csv_plain 300 db_joined (fresh_user 1) ''edit'')
     = Some member_user
   \<and> (\<exists>u db. endGroupMembership (Suc (Suc 0)) csv_plain 400 400 400 db_joined member_user (ById 20)
                  = Returned True (u, db)
        \<and> returned (hasPermission (Suc (Suc 0)) csv_plain 500 db u ''edit'') = Some True
        \<and> returned (hasPermission (Suc (Suc 0)) csv_plain 500 db (fresh_user 1) ''edit'') = Some False)"
proof (intro conjI)
  show "state_after (hasPermission (Suc (Suc 0)) csv_plain 100 db_editors (fresh_user 1) ''edit'')
     = Some checked_user"
    by (simp add: example_defs run_defs cache_defs tree_defs)
  show "\<exists>u db. addToGroup (Suc (Suc 0)) csv_plain encode_plain 200 200 200 db_editors checked_user
                  (ById 20) (Some []) None None = Returned (Some editors) (u, db)
        \<and> db = db_joined
        \<and> permissions u = Some []
        \<and> map_option (map fst) (groups u) = Some [20]
        \<and> returned (hasPermission (Suc (Suc 0)) csv_plain 300 db u ''edit'') = Some False
        \<and> returned (hasPermission (Suc (Suc 0)) csv_plain 300 db (fresh_user 1) ''edit'') = Some True
        \<and> map_option (map fst) (returned (getGroups (Suc (Suc 0)) csv_plain 300 db (fresh_user 1)))
            = Some [20, 21]"
    by (simp add: example_defs run_defs cache_defs tree_defs join_defs)
  show "state_after (hasPermission (Suc (Suc 0)) csv_plain 300 db_joined (fresh_user 1) ''edit'')
     = Some member_user"
    by (simp add: example_defs run_defs cache_defs tree_defs)
  show "\<exists>u db. endGroupMembership (Suc (Suc 0)) csv_plain 400 400 400 db_joined member_user (ById 20)
                  = Returned True (u, db)
        \<and> returned (hasPermission (Suc (Suc 0)) csv_plain 500 db u ''edit'') = Some True
        \<and> returned (hasPermission (Suc (Suc 0)) csv_plain 500 db (fresh_user 1) ''edit'') = Some False"
    by (simp add: example_defs run_defs cache_defs tree_defs join_defs)
qed

theorem cache_after_mutation_witness:
  "(\<exists>u' db'. endGroupMembership (Suc (Suc 0)) csv_plain 400 400 400 db_joined member_user (ById 20)
                 = Returned True (u', db')
       \<and> (\<exists>gs. getGroups (Suc (Suc 0)) csv_plain 400 db' (member_user\<lparr>groups := None\<rparr>) = Returned gs u'
                \<and> groups u' = Some gs)
       \<and> permissions u' = permissions member_user
       \<and> getPermissions (Suc (Suc 0)) csv_plain 500 db' u' = Returned [(''edit'', PTrue)] u')
   \<and> (\<exists>u' db'. addToGroup (Suc (Suc 0)) csv_plain encode_plain 200 200 200 db_editors checked_user
                  (ById 20) (Some []) None None = Returned (Some editors) (u', db')
       \<and> (\<exists>gs u1 e. getGroups (Suc (Suc 0)) csv_plain 200 db' checked_user = Returned gs u1
                \<and> groups u' = Some (AList.update (id_g editors) e gs))
       \<and> permissions u' = permissions checked_user
       \<and> getPermissions (Suc (Suc 0)) csv_plain 300 db' u' = Returned [] u')"
proof -
  define left where "left = the (state_after
      (endGroupMembership (Suc (Suc 0)) csv_plain 400 400 400 db_joined member_user (ById 20)))"
  have run1: "endGroupMembership (Suc (Suc 0)) csv_plain 400 400 400 db_joined member_user (ById 20)
      = Returned True (fst left, snd left)"
    by (simp add: left_def example_defs run_defs cache_defs join_defs)
  have tree1: "permissions member_user = Some [(''edit'', PTrue)]"
    by (simp add: member_user_def)
  define joined where "joined = the (state_after
      (addToGroup (Suc (Suc 0)) csv_plain encode_plain 200 200 200 db_editors checked_user
         (ById 20) (Some []) None None))"
  have run2: "addToGroup (Suc (Suc 0)) csv_plain encode_plain 200 200 200 db_editors checked_user
      (ById 20) (Some []) None None = Returned (Some editors) (fst joined, snd joined)"
    by (simp add: joined_def example_defs run_defs cache_defs join_defs)
  have tree2: "permissions checked_user = Some []"
    by (simp add: checked_user_def)
  have 1: "\<exists>u' db'. endGroupMembership (Suc (Suc 0)) csv_plain 400 400 400 db_joined member_user (ById 20)
                 = Returned True (u', db')
       \<and> (\<exists>gs. getGroups (Suc (Suc 0)) csv_plain 400 db' (member_user\<lparr>groups := None\<rparr>) = Returned gs u'
                \<and> groups u' = Some gs)
       \<and> permissions u' = permissions member_user
       \<and> getPermissions (Suc (Suc 0)) csv_plain 500 db' u' = Returned [(''edit'', PTrue)] u'"
    using cache_after_mutation [where fuel = "Suc (Suc 0)" and csv = csv_plain and ?t0.0 = 400
        and timeNow = 400 and ?t1.0 = 400 and db = db_joined and u = member_user and ref = "ById 20"
        and u' = "fst left" and db' = "snd left" and ?t2.0 = 500] run1 tree1
    by blast
  have 2: "\<exists>u' db'. addToGroup (Suc (Suc 0)) csv_plain encode_plain 200 200 200 db_editors checked_user
                  (ById 20) (Some []) None None = Returned (Some editors) (u', db')
       \<and> (\<exists>gs u1 e. getGroups (Suc (Suc 0)) csv_plain 200 db' checked_user = Returned gs u1
                \<and> groups u' = Some (AList.update (id_g editors) e gs))
       \<and> permissions u' = permissions checked_user
       \<and> getPermissions (Suc (Suc 0)) csv_plain 300 db' u' = Returned [] u'"
    using cache_after_mutation [where fuel = "Suc (Suc 0)" and csv = csv_plain and encode = encode_plain
        and ?t0.0 = 200 and timeNow = 200 and ?t1.0 = 200 and db = db_editors and u = checked_user
        and ref = "ById 20" and as = "Some []" and timeFrom = None and timeTo = None and g = editors
        and u' = "fst joined" and db' = "snd joined" and ?t2.0 = 300] run2 tree2
    by blast
  from 1 2 show ?thesis by (rule conjI)
qed

end
